theory Spec2Isabelle
  imports Main
begin

section \<open>Identity reconciliation: the contact store and \<open>processContact\<close>\<close>

subsection \<open>JavaScript values and strings (src/utils/normalization.ts)\<close>

text \<open>
  The normalisers are declared on \<open>string | null | undefined\<close> but test their argument
  at run time (\<open>typeof\<close>, \<open>== null\<close>, \<open>toString()\<close>), so the argument is modelled as
  a run-time value. Strings are ASCII.

  A number is a double. The safe integers, those of magnitude at most \<open>2^53 - 1\<close>
  (\<open>Number.MAX_SAFE_INTEGER\<close>), are the numbers that \<open>toString()\<close> prints as the exact
  decimal numeral of their value; they are a type of their own. Every other value (a
  fractional or larger number, \<open>NaN\<close>, an infinity, an array, an object) is given by the
  string that its \<open>toString()\<close> returns, for instance \<open>1.5\<close>, \<open>1e+21\<close>,
  \<open>9223372036854776000\<close>, \<open>NaN\<close> or \<open>[object Object]\<close>: the model does not compute the
  printing of such values. A value whose \<open>toString()\<close> throws is not a value of this type.
\<close>

typedef safeInteger = "{i::int. abs i \<le> 9007199254740991}"
  morphisms intOf safe
  by (rule exI [of _ 0]) simp

datatype jsval =
    JUndefined
  | JNull
  | JBool bool
  | JStr string
  | JInt safeInteger
  | JOther string

text \<open>The decimal numeral of a natural number, without leading zeros.\<close>

fun decimal :: "nat \<Rightarrow> string" where
  "decimal n =
     (if n < 10 then [''0123456789'' ! n]
      else decimal (n div 10) @ [''0123456789'' ! (n mod 10)])"

declare decimal.simps [simp del]

text \<open>
  \<open>v.toString()\<close>. \<open>normalizePhone\<close> calls it on a value that is neither \<open>null\<close> nor
  \<open>undefined\<close>; for these two the equations give the strings of \<open>String(v)\<close>.
\<close>

fun toString :: "jsval \<Rightarrow> string" where
  "toString (JStr s) = s"
| "toString (JInt n) =
     (if intOf n < 0 then CHR ''-'' # decimal (nat (- intOf n)) else decimal (nat (intOf n)))"
| "toString (JBool b) = (if b then ''true'' else ''false'')"
| "toString (JOther printed) = printed"
| "toString JNull = ''null''"
| "toString JUndefined = ''undefined''"

definition isDigit :: "char \<Rightarrow> bool" where
  "isDigit c = (c \<in> set ''0123456789'')"

text \<open>The white space \<open>String.prototype.trim\<close> removes, within ASCII: TAB, LF, VT, FF, CR, SP.\<close>

definition isSpace :: "char \<Rightarrow> bool" where
  "isSpace c = (c \<in> set [CHR 0x09, CHR 0x0A, CHR 0x0B, CHR 0x0C, CHR 0x0D, CHR 0x20])"

definition trim :: "string \<Rightarrow> string" where
  "trim s = rev (dropWhile isSpace (rev (dropWhile isSpace s)))"

definition lowerChar :: "char \<Rightarrow> char" where
  "lowerChar c =
     (case map_of (zip ''ABCDEFGHIJKLMNOPQRSTUVWXYZ'' ''abcdefghijklmnopqrstuvwxyz'') c of
        Some d \<Rightarrow> d
      | None \<Rightarrow> c)"

definition toLowerCase :: "string \<Rightarrow> string" where
  "toLowerCase s = map lowerChar s"

text \<open>\<open>normalizeEmail\<close>: anything that is not a string is absent; else trim and lower-case.\<close>

fun normalizeEmail :: "jsval \<Rightarrow> string option" where
  "normalizeEmail (JStr s) =
     (let trimmed = toLowerCase (trim s) in if trimmed = [] then None else Some trimmed)"
| "normalizeEmail _ = None"

text \<open>\<open>normalizePhone\<close>: only \<open>null\<close> and \<open>undefined\<close> are absent; else \<open>toString\<close>, keep the digits.\<close>

fun normalizePhone :: "jsval \<Rightarrow> string option" where
  "normalizePhone JNull = None"
| "normalizePhone JUndefined = None"
| "normalizePhone v =
     (let digits = filter isDigit (toString v) in if digits = [] then None else Some digits)"

declare normalizeEmail.simps [simp del] normalizePhone.simps [simp del]

text \<open>
  The controller hands the phone of the request body to \<open>processContact\<close> as
  \<open>phoneNumber?.toString() ?? null\<close>, after \<open>phoneNumber = null\<close> has replaced an absent
  field.
\<close>

definition phoneArgument :: "jsval \<Rightarrow> jsval" where
  "phoneArgument phoneNumber =
     (case phoneNumber of
        JUndefined \<Rightarrow> JNull
      | JNull \<Rightarrow> JNull
      | v \<Rightarrow> JStr (toString v))"

subsection \<open>The Contact table (prisma/schema.prisma) and its errors\<close>

datatype LinkPrecedence = primary | secondary

text \<open>
  One row of the table. \<open>id_c\<close> is the column \<open>id\<close>; time stamps are natural numbers
  (milliseconds), \<open>null\<close> columns are \<open>None\<close>.
\<close>

record Contact =
  id_c :: nat
  phoneNumber :: "string option"
  email :: "string option"
  linkedId :: "nat option"
  linkPrecedence :: LinkPrecedence
  createdAt :: nat
  updatedAt :: nat
  deletedAt :: "nat option"

text \<open>
  The table is the list of its rows in the order the database returns them when a
  query gives no \<open>orderBy\<close> (and among rows that an \<open>orderBy\<close> key does not separate),
  with the autoincrement sequence of \<open>id\<close>. The sequence value that a rolled-back
  insert consumes is not modelled: ids grow strictly either way.
\<close>

record store =
  contacts :: "Contact list"
  nextId :: nat

text \<open>
  What can be thrown: a plain \<open>Error\<close> with its message, a Prisma request error with
  its \<open>code\<close>, the \<open>TypeError\<close> of a property read on \<open>undefined\<close>, and the
  \<open>DatabaseError\<close> of src/utils/errors.ts.
\<close>

datatype error =
    Error string
  | PrismaError string
  | TypeError
  | DatabaseError string

fun errCode :: "error \<Rightarrow> string option" where
  "errCode (PrismaError c) = Some c"
| "errCode _ = None"

record response =
  primaryContactId :: nat
  emails :: "string list"
  phoneNumbers :: "string list"
  secondaryContactIds :: "nat list"

subsection \<open>The Prisma calls of src/services/identify.service.ts\<close>

text \<open>JavaScript truthiness of a \<open>string | null\<close>: neither \<open>null\<close> nor the empty string.\<close>

definition truthy :: "string option \<Rightarrow> bool" where
  "truthy x = (x \<noteq> None \<and> x \<noteq> Some [])"

text \<open>Lines 45-53: the non-deleted rows whose email or phone equals a supplied one.\<close>

definition findMatching :: "string option \<Rightarrow> string option \<Rightarrow> store \<Rightarrow> Contact list" where
  "findMatching em ph s =
     filter (\<lambda>c. deletedAt c = None \<and>
                 ((truthy em \<and> email c = em) \<or> (truthy ph \<and> phoneNumber c = ph)))
       (contacts s)"

text \<open>
  \<open>@@unique([email, phoneNumber])\<close>: a row is refused when another row, deleted or
  not, carries the same pair with both columns non-null.
\<close>

definition uniqueViolation :: "string option \<Rightarrow> string option \<Rightarrow> store \<Rightarrow> bool" where
  "uniqueViolation em ph s =
     (em \<noteq> None \<and> ph \<noteq> None \<and> list_ex (\<lambda>c. email c = em \<and> phoneNumber c = ph) (contacts s))"

text \<open>\<open>tx.contact.create\<close>: the new row gets the next id and the current time.\<close>

definition create ::
  "nat \<Rightarrow> string option \<Rightarrow> string option \<Rightarrow> LinkPrecedence \<Rightarrow> nat option \<Rightarrow> store
     \<Rightarrow> error + Contact \<times> store" where
  "create now em ph prec lid s =
     (if uniqueViolation em ph s then Inl (PrismaError ''P2002'')
      else
        let c = \<lparr>id_c = nextId s, phoneNumber = ph, email = em, linkedId = lid,
                 linkPrecedence = prec, createdAt = now, updatedAt = now, deletedAt = None\<rparr>
        in Inr (c, s\<lparr>contacts := contacts s @ [c], nextId := Suc (nextId s)\<rparr>))"

text \<open>Lines 72-75: the rows with one of the given ids, by \<open>createdAt\<close> ascending.\<close>

definition findByIds :: "nat list \<Rightarrow> store \<Rightarrow> Contact list" where
  "findByIds ids s = sort_key createdAt (filter (\<lambda>c. id_c c \<in> set ids) (contacts s))"

text \<open>Lines 84-87: every row linked to one of \<open>ids\<close> is linked to \<open>pid\<close> instead.\<close>

definition linkedIn :: "nat list \<Rightarrow> Contact \<Rightarrow> bool" where
  "linkedIn ids c = (case linkedId c of None \<Rightarrow> False | Some k \<Rightarrow> k \<in> set ids)"

definition reparentChildren :: "nat list \<Rightarrow> nat \<Rightarrow> nat \<Rightarrow> store \<Rightarrow> store" where
  "reparentChildren ids pid now s =
     s\<lparr>contacts :=
         map (\<lambda>c. if linkedIn ids c then c\<lparr>linkedId := Some pid, updatedAt := now\<rparr> else c)
           (contacts s)\<rparr>"

text \<open>Lines 90-97: every row with one of \<open>ids\<close> becomes a secondary of \<open>pid\<close>.\<close>

definition demote :: "nat list \<Rightarrow> nat \<Rightarrow> nat \<Rightarrow> store \<Rightarrow> store" where
  "demote ids pid now s =
     s\<lparr>contacts :=
         map (\<lambda>c. if id_c c \<in> set ids
                   then c\<lparr>linkPrecedence := secondary, linkedId := Some pid, updatedAt := now\<rparr>
                   else c)
           (contacts s)\<rparr>"

text \<open>Lines 102-110: the non-deleted rows that are a root or linked to one.\<close>

definition findCluster :: "nat list \<Rightarrow> store \<Rightarrow> Contact list" where
  "findCluster rootIds s =
     filter (\<lambda>c. deletedAt c = None \<and> (id_c c \<in> set rootIds \<or> linkedIn rootIds c)) (contacts s)"

text \<open>Lines 12-22.\<close>

definition fetchContactCluster :: "nat \<Rightarrow> store \<Rightarrow> Contact list" where
  "fetchContactCluster primaryId s =
     filter (\<lambda>c. deletedAt c = None \<and> (id_c c = primaryId \<or> linkedId c = Some primaryId))
       (contacts s)"

text \<open>
  Lines 170-180: \<open>findFirst\<close> over the non-deleted rows matching the pair, the email or
  the phone, by \<open>createdAt\<close> ascending.
\<close>

definition findConflicting :: "string option \<Rightarrow> string option \<Rightarrow> store \<Rightarrow> Contact option" where
  "findConflicting em ph s =
     (case sort_key createdAt
             (filter (\<lambda>c. deletedAt c = None \<and>
                          ((truthy em \<and> truthy ph \<and> email c = em \<and> phoneNumber c = ph) \<or>
                           (truthy em \<and> email c = em) \<or>
                           (truthy ph \<and> phoneNumber c = ph)))
                (contacts s)) of
        [] \<Rightarrow> None
      | existing # _ \<Rightarrow> Some existing)"

subsection \<open>\<open>buildResponse\<close>\<close>

text \<open>\<open>Array.from(new Set(xs))\<close>: the first occurrence of each element, in order.\<close>

definition arrayFromSet :: "'a list \<Rightarrow> 'a list" where
  "arrayFromSet xs = rev (remdups (rev xs))"

text \<open>\<open>.filter(e => !!e)\<close> on a list of \<open>string | null\<close>.\<close>

fun present :: "string option list \<Rightarrow> string list" where
  "present [] = []"
| "present (None # xs) = present xs"
| "present (Some x # xs) = (if x = [] then present xs else x # present xs)"

text \<open>Lines 205-230. \<open>chain.find(...)!\<close> is \<open>undefined\<close> when the primary is not in the chain.\<close>

definition buildResponse :: "nat \<Rightarrow> Contact list \<Rightarrow> error + response" where
  "buildResponse primaryId chain =
     (case find (\<lambda>c. id_c c = primaryId) chain of
        None \<Rightarrow> Inl TypeError
      | Some prim \<Rightarrow>
          let secondaries = filter (\<lambda>c. id_c c \<noteq> primaryId) chain in
          Inr \<lparr>primaryContactId = primaryId,
               emails = arrayFromSet (present (email prim # map email secondaries)),
               phoneNumbers = arrayFromSet (present (phoneNumber prim # map phoneNumber secondaries)),
               secondaryContactIds = map id_c secondaries\<rparr>)"

subsection \<open>The transaction (lines 43-159)\<close>

text \<open>Lines 64-68: a matched row's candidate primary id.\<close>

definition candidateId :: "Contact \<Rightarrow> nat" where
  "candidateId m =
     (case linkedId m of
        None \<Rightarrow> id_c m
      | Some k \<Rightarrow> if linkPrecedence m = secondary \<and> k \<noteq> 0 then k else id_c m)"

text \<open>Step 5 (lines 80-98): re-link the children, then demote.\<close>

definition mergeInto :: "Contact \<Rightarrow> Contact list \<Rightarrow> nat \<Rightarrow> store \<Rightarrow> store" where
  "mergeInto prim otherPrimaries now s =
     (if otherPrimaries \<noteq> [] then
        let otherPrimaryIds = map id_c otherPrimaries in
        demote otherPrimaryIds (id_c prim) now
          (reparentChildren otherPrimaryIds (id_c prim) now s)
      else s)"

text \<open>Create a secondary of \<open>pid\<close>, push it on the cluster, answer.\<close>

definition createSecondary ::
  "nat \<Rightarrow> string option \<Rightarrow> string option \<Rightarrow> nat \<Rightarrow> Contact list \<Rightarrow> store
     \<Rightarrow> error + response \<times> store" where
  "createSecondary now em ph pid cluster s =
     (case create now em ph secondary (Some pid) s of
        Inl e \<Rightarrow> Inl e
      | Inr (sec, s') \<Rightarrow>
          (case buildResponse pid (cluster @ [sec]) of
             Inl e \<Rightarrow> Inl e
           | Inr r \<Rightarrow> Inr (r, s')))"

text \<open>
  Steps 3 to 6 (lines 63-110): resolve the true primary of the matched rows, merge the
  other candidates into it and fetch the consolidated cluster. \<open>primaryRecords[0]\<close> is
  \<open>undefined\<close> when no candidate id has a row; reading its \<open>id\<close> then throws.
\<close>

definition consolidate ::
  "nat \<Rightarrow> Contact list \<Rightarrow> store \<Rightarrow> (Contact \<times> Contact list \<times> store) option" where
  "consolidate now matches s =
     (let uniquePrimaryIds = arrayFromSet (map candidateId matches);
          primaryRecords = findByIds uniquePrimaryIds s
      in
      case primaryRecords of
        [] \<Rightarrow> None
      | prim # otherPrimaries \<Rightarrow>
          let s1 = mergeInto prim otherPrimaries now s;
              rootIds = id_c prim # map id_c otherPrimaries
          in Some (prim, findCluster rootIds s1, s1))"

text \<open>
  Lines 112-158: a single identifier always gets its own secondary; with both, a
  secondary is created for what the cluster does not hold yet.
\<close>

definition newInformation ::
  "nat \<Rightarrow> string option \<Rightarrow> string option \<Rightarrow> Contact \<Rightarrow> Contact list \<Rightarrow> store
     \<Rightarrow> error + response \<times> store" where
  "newInformation now em ph prim cluster s1 =
     (if truthy em \<and> \<not> truthy ph then
        createSecondary now em None (id_c prim) cluster s1
      else if truthy ph \<and> \<not> truthy em then
        createSecondary now None ph (id_c prim) cluster s1
      else
        let hasEmail = (truthy em \<and> list_ex (\<lambda>c. email c = em) cluster);
            hasPhone = (truthy ph \<and> list_ex (\<lambda>c. phoneNumber c = ph) cluster);
            needEmailLink = (truthy em \<and> \<not> hasEmail);
            needPhoneLink = (truthy ph \<and> \<not> hasPhone)
        in
        if needEmailLink \<or> needPhoneLink then
          createSecondary now (if needEmailLink then em else None)
            (if needPhoneLink then ph else None) (id_c prim) cluster s1
        else
          (case buildResponse (id_c prim) cluster of
             Inl e \<Rightarrow> Inl e
           | Inr r \<Rightarrow> Inr (r, s1)))"

text \<open>
  The callback given to \<open>prisma.$transaction\<close>, on the normalised identifiers. An
  error rolls the transaction back: no store is returned.
\<close>

definition identifyTx ::
  "nat \<Rightarrow> string option \<Rightarrow> string option \<Rightarrow> store \<Rightarrow> error + response \<times> store" where
  "identifyTx now em ph s =
     (let matches = findMatching em ph s in
      if matches = [] then
        (case create now em ph primary None s of
           Inl e \<Rightarrow> Inl e
         | Inr (prim, s') \<Rightarrow>
             (case buildResponse (id_c prim) [prim] of
                Inl e \<Rightarrow> Inl e
              | Inr r \<Rightarrow> Inr (r, s')))
      else
        (case consolidate now matches s of
           None \<Rightarrow> Inl TypeError
         | Some (prim, cluster, s1) \<Rightarrow> newInformation now em ph prim cluster s1))"

subsection \<open>The retry envelope (lines 34-41 and 165-202)\<close>

text \<open>
  The store is shared with other clients and can fail. What it does beyond the
  sequential behaviour above is given per attempt: \<open>txFault\<close> is an error that a call
  inside the transaction raises (a lost race raises \<open>P2002\<close>; the transaction is rolled
  back whatever the call), \<open>requeryFault\<close> one that the re-query of the handler raises.
  An attempt without an entry has no fault.
\<close>

record attempt =
  txFault :: "error option"
  requeryFault :: "error option"

definition noFault :: attempt where
  "noFault = \<lparr>txFault = None, requeryFault = None\<rparr>"

definition currentAttempt :: "attempt list \<Rightarrow> attempt" where
  "currentAttempt fs = (case fs of [] \<Rightarrow> noFault | f # _ \<Rightarrow> f)"

definition runTransaction ::
  "attempt \<Rightarrow> nat \<Rightarrow> string option \<Rightarrow> string option \<Rightarrow> store \<Rightarrow> error + response \<times> store" where
  "runTransaction a now em ph s =
     (case txFault a of Some e \<Rightarrow> Inl e | None \<Rightarrow> identifyTx now em ph s)"

text \<open>
  The inner \<open>try\<close> block (lines 168-189). \<open>existing.linkedId!\<close> of a secondary without
  link is \<open>null\<close>; no cluster has a row of id \<open>null\<close>, and the block throws.
\<close>

definition resolveConflict ::
  "attempt \<Rightarrow> string option \<Rightarrow> string option \<Rightarrow> store \<Rightarrow> error + response option" where
  "resolveConflict a em ph s =
     (case requeryFault a of
        Some e \<Rightarrow> Inl e
      | None \<Rightarrow>
          (case findConflicting em ph s of
             None \<Rightarrow> Inr None
           | Some existing \<Rightarrow>
               (case (if linkPrecedence existing = primary then Some (id_c existing)
                      else linkedId existing) of
                  None \<Rightarrow> Inl TypeError
                | Some truePrimaryId \<Rightarrow>
                    (case buildResponse truePrimaryId (fetchContactCluster truePrimaryId s) of
                       Inl e \<Rightarrow> Inl e
                     | Inr r \<Rightarrow> Inr (Some r)))))"

text \<open>
  What a call gives: the value returned or the error thrown, the store afterwards, and
  how many times the transaction was started.
\<close>

record run =
  outcome :: "error + response"
  db :: store
  attempts :: nat

text \<open>
  \<open>processContact(rawEmail, rawPhone, maxRetries)\<close>, with the faults of its attempts and
  the time of the call. The inner \<open>catch\<close> ignores whatever the re-query block throws.
\<close>

fun processContact ::
  "attempt list \<Rightarrow> nat \<Rightarrow> jsval \<Rightarrow> jsval \<Rightarrow> nat \<Rightarrow> store \<Rightarrow> run" where
  "processContact fs now rawEmail rawPhone maxRetries s =
     (let em = normalizeEmail rawEmail;
          ph = normalizePhone rawPhone
      in
      if \<not> truthy em \<and> \<not> truthy ph then
        \<lparr>outcome = Inl (Error ''email or phoneNumber required''), db = s, attempts = 0\<rparr>
      else
        let a = currentAttempt fs in
        (case runTransaction a now em ph s of
           Inr (r, s') \<Rightarrow> \<lparr>outcome = Inr r, db = s', attempts = 1\<rparr>
         | Inl e \<Rightarrow>
             if errCode e = Some ''P2002'' \<and> maxRetries > 0 then
               (case resolveConflict a em ph s of
                  Inr (Some r) \<Rightarrow> \<lparr>outcome = Inr r, db = s, attempts = 1\<rparr>
                | _ \<Rightarrow>
                    let again = processContact (tl fs) now rawEmail rawPhone (maxRetries - 1) s
                    in again\<lparr>attempts := Suc (attempts again)\<rparr>)
             else if errCode e = Some ''P2002'' then
               \<lparr>outcome = Inl (DatabaseError ''Failed to resolve contact conflict''),
                db = s, attempts = 1\<rparr>
             else \<lparr>outcome = Inl e, db = s, attempts = 1\<rparr>))"

declare processContact.simps [simp del]

subsection \<open>Auxiliary definitions for the statements and proofs\<close>

text \<open>Reading a decimal numeral back: the value of a digit, and of a string of digits.\<close>

definition digitValue :: "char \<Rightarrow> nat" where
  "digitValue c = length (takeWhile (\<lambda>d. d \<noteq> c) ''0123456789'')"

definition decimalValue :: "string \<Rightarrow> nat" where
  "decimalValue ds = foldl (\<lambda>a c. 10 * a + digitValue c) 0 ds"

text \<open>What steps 5a and 5b together do to one row.\<close>

definition mergeRow :: "nat list \<Rightarrow> nat \<Rightarrow> nat \<Rightarrow> Contact \<Rightarrow> Contact" where
  "mergeRow ids pid now c =
     (let c1 = (if linkedIn ids c then c\<lparr>linkedId := Some pid, updatedAt := now\<rparr> else c)
      in if id_c c1 \<in> set ids
         then c1\<lparr>linkPrecedence := secondary, linkedId := Some pid, updatedAt := now\<rparr>
         else c1)"

text \<open>The row that \<open>create\<close> adds for a secondary of \<open>pid\<close>.\<close>

definition newSecondary ::
  "nat \<Rightarrow> string option \<Rightarrow> string option \<Rightarrow> nat \<Rightarrow> store \<Rightarrow> Contact" where
  "newSecondary now em ph pid s =
     \<lparr>id_c = nextId s, phoneNumber = ph, email = em, linkedId = Some pid,
      linkPrecedence = secondary, createdAt = now, updatedAt = now, deletedAt = None\<rparr>"

text \<open>Lines 72-75 before ordering: the rows of the candidate primary ids.\<close>

definition candidateRecords :: "string option \<Rightarrow> string option \<Rightarrow> store \<Rightarrow> Contact list" where
  "candidateRecords em ph s =
     filter (\<lambda>c. id_c c \<in> set (arrayFromSet (map candidateId (findMatching em ph s))))
       (contacts s)"

text \<open>The attempt with index \<open>i\<close> (from 0) of a call.\<close>

definition attemptAt :: "attempt list \<Rightarrow> nat \<Rightarrow> attempt" where
  "attemptAt fs i = currentAttempt (drop i fs)"

text \<open>
  An attempt conflicts when its transaction raises \<open>P2002\<close> and the handler's re-query
  block gives no answer (finds no row, or throws).
\<close>

definition conflicts ::
  "attempt \<Rightarrow> nat \<Rightarrow> string option \<Rightarrow> string option \<Rightarrow> store \<Rightarrow> bool" where
  "conflicts a now em ph s =
     ((case runTransaction a now em ph s of
         Inl e \<Rightarrow> errCode e = Some ''P2002''
       | Inr _ \<Rightarrow> False) \<and>
      (case resolveConflict a em ph s of
         Inr (Some r) \<Rightarrow> False
       | _ \<Rightarrow> True))"

subsection \<open>The hierarchy and histories of calls\<close>

text \<open>
  A well-linked store: the sequence starts at 1, ids are unique, positive and below the
  sequence; a row without link is a primary, and a link refers to a stored row.
\<close>

definition wellLinked :: "store \<Rightarrow> bool" where
  "wellLinked s =
     (0 < nextId s \<and> distinct (map id_c (contacts s)) \<and>
      (\<forall>c \<in> set (contacts s).
         0 < id_c c \<and> id_c c < nextId s \<and>
         (case linkedId c of
            None \<Rightarrow> linkPrecedence c = primary
          | Some k \<Rightarrow> k \<in> id_c ` set (contacts s))))"

text \<open>The flattening invariant: no link points to a secondary.\<close>

definition flat :: "store \<Rightarrow> bool" where
  "flat s =
     (\<forall>c \<in> set (contacts s). \<forall>d \<in> set (contacts s).
        linkedId c = Some (id_c d) \<longrightarrow> linkPrecedence d = primary)"

text \<open>One call: its faults, its time, its arguments.\<close>

record call =
  faults :: "attempt list"
  time :: nat
  rawEmail :: jsval
  rawPhone :: jsval
  maxRetries :: nat

text \<open>The store after a sequence of calls, one after the other.\<close>

fun history :: "call list \<Rightarrow> store \<Rightarrow> store" where
  "history [] s = s"
| "history (c # cs) s =
     history cs (db (processContact (faults c) (time c) (rawEmail c) (rawPhone c) (maxRetries c) s))"

subsection \<open>The statements of the specification, for comparison\<close>

text \<open>
  The specification's true primary: the candidate with the earliest \<open>createdAt\<close>, ties
  broken by ascending id.
\<close>

definition senior :: "Contact \<Rightarrow> Contact \<Rightarrow> bool" where
  "senior a b = (createdAt a < createdAt b \<or> (createdAt a = createdAt b \<and> id_c a \<le> id_c b))"

definition specTruePrimary :: "Contact list \<Rightarrow> Contact option" where
  "specTruePrimary cands =
     (case cands of
        [] \<Rightarrow> None
      | c # cs \<Rightarrow> Some (foldl (\<lambda>a b. if senior a b then a else b) c cs))"

text \<open>
  The specification's re-query: the oldest non-deleted row matching the full pair; failing
  that, the oldest matching the email; failing that, the oldest matching the phone.
\<close>

definition oldest :: "Contact list \<Rightarrow> Contact option" where
  "oldest cs = (case sort_key createdAt cs of [] \<Rightarrow> None | c # _ \<Rightarrow> Some c)"

definition specFindConflicting ::
  "string option \<Rightarrow> string option \<Rightarrow> store \<Rightarrow> Contact option" where
  "specFindConflicting em ph s =
     (let live = filter (\<lambda>c. deletedAt c = None) (contacts s) in
      case oldest (filter (\<lambda>c. truthy em \<and> truthy ph \<and> email c = em \<and> phoneNumber c = ph) live) of
        Some c \<Rightarrow> Some c
      | None \<Rightarrow>
          (case oldest (filter (\<lambda>c. truthy em \<and> email c = em) live) of
             Some c \<Rightarrow> Some c
           | None \<Rightarrow> oldest (filter (\<lambda>c. truthy ph \<and> phoneNumber c = ph) live)))"

subsection \<open>Scenarios, after test/identify.e2e.test.ts\<close>

text \<open>The empty table, with its sequence at 1.\<close>

definition emptyStore :: store where
  "emptyStore = \<lparr>contacts = [], nextId = 1\<rparr>"

text \<open>
  Two independent primaries, as in the test of the primary-to-secondary conversion, and
  what the request that links them (the older one's email, the younger one's phone, at
  time 30) makes of them.
\<close>

definition rowGeorge :: Contact where
  "rowGeorge = \<lparr>id_c = 1, phoneNumber = Some ''919191'', email = Some ''george@hillvalley.edu'',
      linkedId = None, linkPrecedence = primary, createdAt = 10, updatedAt = 10, deletedAt = None\<rparr>"

definition rowBiff :: Contact where
  "rowBiff = \<lparr>id_c = 2, phoneNumber = Some ''717171'', email = Some ''biffsucks@hillvalley.edu'',
      linkedId = None, linkPrecedence = primary, createdAt = 20, updatedAt = 20, deletedAt = None\<rparr>"

definition twoPrimaries :: store where
  "twoPrimaries = \<lparr>contacts = [rowGeorge, rowBiff], nextId = 3\<rparr>"

definition rowBiffDemoted :: Contact where
  "rowBiffDemoted = rowBiff\<lparr>linkPrecedence := secondary, linkedId := Some 1, updatedAt := 30\<rparr>"

definition twoMerged :: store where
  "twoMerged = \<lparr>contacts = [rowGeorge, rowBiffDemoted], nextId = 3\<rparr>"

text \<open>A child of the younger primary, and the two primaries with it.\<close>

definition rowChild :: Contact where
  "rowChild = \<lparr>id_c = 3, phoneNumber = Some ''717171'', email = None,
      linkedId = Some 2, linkPrecedence = secondary, createdAt = 25, updatedAt = 25,
      deletedAt = None\<rparr>"

definition familyStore :: store where
  "familyStore = \<lparr>contacts = [rowGeorge, rowBiff, rowChild], nextId = 4\<rparr>"

text \<open>Two primaries created in the same millisecond, returned by the store in this order.\<close>

definition rowLate :: Contact where
  "rowLate = \<lparr>id_c = 2, phoneNumber = Some ''222222'', email = Some ''b@test.com'',
      linkedId = None, linkPrecedence = primary, createdAt = 5, updatedAt = 5, deletedAt = None\<rparr>"

definition rowEarly :: Contact where
  "rowEarly = \<lparr>id_c = 1, phoneNumber = Some ''111111'', email = Some ''a@test.com'',
      linkedId = None, linkPrecedence = primary, createdAt = 5, updatedAt = 5, deletedAt = None\<rparr>"

definition tiedStore :: store where
  "tiedStore = \<lparr>contacts = [rowLate, rowEarly], nextId = 3\<rparr>"

text \<open>Two primaries that share an email; the younger one carries the requested pair.\<close>

definition rowPair :: Contact where
  "rowPair = \<lparr>id_c = 2, phoneNumber = Some ''717171'', email = Some ''george@hillvalley.edu'',
      linkedId = None, linkPrecedence = primary, createdAt = 20, updatedAt = 20, deletedAt = None\<rparr>"

definition splitStore :: store where
  "splitStore = \<lparr>contacts = [rowGeorge, rowPair], nextId = 3\<rparr>"

text \<open>A store whose only row is soft-deleted.\<close>

definition rowLorraineDeleted :: Contact where
  "rowLorraineDeleted =
     \<lparr>id_c = 1, phoneNumber = Some ''123456'', email = Some ''lorraine@hillvalley.edu'',
      linkedId = None, linkPrecedence = primary, createdAt = 1, updatedAt = 5,
      deletedAt = Some 5\<rparr>"

definition retiredStore :: store where
  "retiredStore = \<lparr>contacts = [rowLorraineDeleted], nextId = 2\<rparr>"

text \<open>Soft-deleted rows next to two primaries: a deleted child, and a deleted primary.\<close>

definition rowGone :: Contact where
  "rowGone = \<lparr>id_c = 3, phoneNumber = None, email = Some ''old@hillvalley.edu'',
      linkedId = Some 2, linkPrecedence = secondary, createdAt = 25, updatedAt = 26,
      deletedAt = Some 26\<rparr>"

definition graveStore :: store where
  "graveStore = \<lparr>contacts = [rowGeorge, rowBiff, rowGone], nextId = 4\<rparr>"

definition rowBiffGone :: Contact where
  "rowBiffGone = rowBiff\<lparr>deletedAt := Some 26\<rparr>"

definition orphanStore :: store where
  "orphanStore = \<lparr>contacts = [rowGeorge, rowBiffGone, rowChild], nextId = 4\<rparr>"

text \<open>A live secondary whose primary is soft-deleted.\<close>

definition widowStore :: store where
  "widowStore = \<lparr>contacts = [rowBiffGone, rowChild], nextId = 4\<rparr>"



text \<open>
  Faults of an attempt: a lost race, a connection error in the transaction, and a lost
  race whose re-query fails with a connection error.
\<close>

definition lostRace :: attempt where
  "lostRace = \<lparr>txFault = Some (PrismaError ''P2002''), requeryFault = None\<rparr>"

definition outage :: attempt where
  "outage = \<lparr>txFault = Some (PrismaError ''P1001''), requeryFault = None\<rparr>"

definition lostRaceThenOutage :: attempt where
  "lostRaceThenOutage =
     \<lparr>txFault = Some (PrismaError ''P2002''), requeryFault = Some (PrismaError ''P1001'')\<rparr>"

text \<open>The email-only request of the test on email-only duplicates, at a given time.\<close>

definition dupCall :: "nat \<Rightarrow> call" where
  "dupCall t = \<lparr>faults = [], time = t, rawEmail = JStr ''dup@test.com'', rawPhone = JNull,
                 maxRetries = 3\<rparr>"

section \<open>Properties\<close>

subsection \<open>Basic facts\<close>

lemma truthy_Some [simp]: "truthy (Some x) = (x \<noteq> [])"
  by (simp add: truthy_def)

lemma truthy_None [simp]: "\<not> truthy None"
  by (simp add: truthy_def)

lemma truthy_normalizeEmail: "truthy (normalizeEmail v) = (normalizeEmail v \<noteq> None)"
  by (cases v) (simp_all add: normalizeEmail.simps Let_def)

lemma truthy_normalizePhone: "truthy (normalizePhone v) = (normalizePhone v \<noteq> None)"
  by (cases v) (simp_all add: normalizePhone.simps Let_def)

lemma mergeRow_frame [simp]:
  "id_c (mergeRow ids pid now c) = id_c c"
  "email (mergeRow ids pid now c) = email c"
  "phoneNumber (mergeRow ids pid now c) = phoneNumber c"
  "deletedAt (mergeRow ids pid now c) = deletedAt c"
  "createdAt (mergeRow ids pid now c) = createdAt c"
  by (simp_all add: mergeRow_def Let_def)

lemma mergeRow_Nil [simp]: "mergeRow [] pid now c = c"
  by (simp add: mergeRow_def linkedIn_def split: option.splits)

lemma mergeRow_demoted:
  "id_c c \<in> set ids \<Longrightarrow>
     linkPrecedence (mergeRow ids pid now c) = secondary \<and> linkedId (mergeRow ids pid now c) = Some pid"
  by (simp add: mergeRow_def Let_def)

lemma mergeRow_relinked:
  "linkedIn ids c \<Longrightarrow> linkedId (mergeRow ids pid now c) = Some pid"
  by (simp add: mergeRow_def Let_def)

lemma mergeRow_other:
  "id_c c \<notin> set ids \<Longrightarrow> \<not> linkedIn ids c \<Longrightarrow> mergeRow ids pid now c = c"
  by (simp add: mergeRow_def Let_def)

lemma mergeRow_precedence:
  "id_c c \<notin> set ids \<Longrightarrow> linkPrecedence (mergeRow ids pid now c) = linkPrecedence c"
  by (simp add: mergeRow_def Let_def)

lemma contacts_mergeInto:
  "contacts (mergeInto prim others now s) = map (mergeRow (map id_c others) (id_c prim) now) (contacts s)"
proof (cases others)
  case Nil
  have "map (mergeRow [] (id_c prim) now) (contacts s) = contacts s"
    by (rule map_idI) simp
  with Nil show ?thesis by (simp add: mergeInto_def)
next
  case (Cons a list)
  then show ?thesis
    by (simp add: mergeInto_def demote_def reparentChildren_def mergeRow_def Let_def)
qed

lemma nextId_mergeInto [simp]: "nextId (mergeInto prim others now s) = nextId s"
  by (simp add: mergeInto_def demote_def reparentChildren_def Let_def)

subsection \<open>The normalisers\<close>

text \<open>The numeral of a natural number: its digits, its value, and no leading zero.\<close>

lemma digit_nth:
  assumes "k < 10"
  shows "digitValue (''0123456789'' ! k) = k" and "''0123456789'' ! k \<in> set ''0123456789''"
proof -
  from assms
  have "k = 9 \<or> k = 8 \<or> k = 7 \<or> k = 6 \<or> k = 5 \<or> k < 5 \<and> (k = 4 \<or> k = 3 \<or> k = 2 \<or> k = 1 \<or> k = 0)"
    by arith
  then show "digitValue (''0123456789'' ! k) = k"
    by (elim disjE conjE) (simp_all add: digitValue_def)
  from assms show "''0123456789'' ! k \<in> set ''0123456789''"
    by (intro nth_mem) simp
qed

lemma decimalValue_snoc: "decimalValue (ds @ [c]) = 10 * decimalValue ds + digitValue c"
  by (simp add: decimalValue_def)

lemma decimal_nonempty: "decimal n \<noteq> []"
  by (subst decimal.simps) simp

lemma decimal_digits: "set (decimal n) \<subseteq> set ''0123456789''"
proof (induction n rule: decimal.induct)
  case (1 n)
  show ?case
  proof (cases "n < 10")
    case True
    with digit_nth(2) [of n] show ?thesis by (subst decimal.simps) simp
  next
    case False
    with "1" digit_nth(2) [of "n mod 10"] show ?thesis by (subst decimal.simps) simp
  qed
qed

lemma decimal_value: "decimalValue (decimal n) = n"
proof (induction n rule: decimal.induct)
  case (1 n)
  show ?case
  proof (cases "n < 10")
    case True
    with digit_nth(1) [of n] show ?thesis
      by (subst decimal.simps) (simp add: decimalValue_def)
  next
    case False
    with "1" digit_nth(1) [of "n mod 10"] show ?thesis
      by (subst decimal.simps) (simp add: decimalValue_snoc)
  qed
qed

lemma decimal_no_leading_zero: "decimal n = ''0'' \<or> hd (decimal n) \<noteq> CHR ''0''"
proof (induction n rule: decimal.induct)
  case (1 n)
  show ?case
  proof (cases "n < 10")
    case True
    then have "n = 9 \<or> n = 8 \<or> n = 7 \<or> n = 6 \<or> n = 5 \<or> n < 5 \<and> (n = 4 \<or> n = 3 \<or> n = 2 \<or> n = 1 \<or> n = 0)"
      by arith
    then show ?thesis
      by (elim disjE conjE) (simp_all add: decimal.simps)
  next
    case False
    then have pos: "n div 10 \<noteq> 0" by simp
    have "decimal (n div 10) \<noteq> ''0''"
    proof
      assume "decimal (n div 10) = ''0''"
      then have "decimalValue (decimal (n div 10)) = decimalValue ''0''" by simp
      moreover have "decimalValue ''0'' = 0" by (simp add: decimalValue_def digitValue_def)
      ultimately have "n div 10 = 0" by (simp only: decimal_value)
      with pos show False by simp
    qed
    with "1" False have "hd (decimal (n div 10)) \<noteq> CHR ''0''" by simp
    with False decimal_nonempty [of "n div 10"] show ?thesis
      by (subst (2) decimal.simps) simp
  qed
qed

text \<open>The digits that \<open>replace(/\D/g, "")\<close> keeps.\<close>

lemma isDigit_set: "isDigit = (\<lambda>c. c \<in> set ''0123456789'')"
  by (rule ext) (simp add: isDigit_def)

lemma keep_digits: "set ds \<subseteq> set ''0123456789'' \<Longrightarrow> filter isDigit ds = ds"
  by (induction ds) (auto simp: isDigit_def)

text \<open>A safe integer normalises to the numeral of its magnitude: the sign is stripped.\<close>

lemma normalizePhone_safeInteger:
  "normalizePhone (JInt n) = Some (decimal (nat (abs (intOf n))))"
proof -
  have d: "filter isDigit (decimal k) = decimal k" for k
    by (rule keep_digits) (rule decimal_digits)
  have m: "\<not> isDigit CHR ''-''" by (simp add: isDigit_def)
  show ?thesis
    using decimal_nonempty [of "nat (abs (intOf n))"]
    by (cases "intOf n < 0") (simp_all add: normalizePhone.simps d m abs_if)
qed

text \<open>
  Phones as they arrive: formatted strings, and numbers that are not safe integers, whose
  printed form is not the numeral of their value (\<open>2^63\<close>, \<open>1e21\<close>, \<open>1.5\<close>), or holds no
  digit at all (\<open>NaN\<close>, an object).
\<close>

lemma normalizePhone_examples:
  "normalizePhone (JStr ''+44 20 7123-4567'') = Some ''442071234567''"
  "normalizePhone (JStr '' (555) 0199 '') = Some ''5550199''"
  "normalizePhone (JStr ''n/a'') = None"
  "normalizePhone (JStr '''') = None"
  "normalizePhone (JOther ''9223372036854776000'') = Some ''9223372036854776000''"
  "normalizePhone (JOther ''1e+21'') = Some ''121''"
  "normalizePhone (JOther ''1.5'') = Some ''15''"
  "normalizePhone (JOther ''NaN'') = None"
  "normalizePhone (JOther ''[object Object]'') = None"
  "normalizePhone (JBool True) = None"
  by (simp_all add: normalizePhone.simps isDigit_def)

text \<open>
  C10: \<open>normalizePhone\<close> gives absent exactly for \<open>null\<close>, for \<open>undefined\<close> and for a value
  whose string form holds no digit; for any other value it gives the digits of the string
  form, in order and nothing else. A numeric phone that is a safe integer is therefore never
  absent: its string form is the decimal numeral of its value (digits only, of that value,
  without leading zero) behind a minus sign when it is negative, and it normalises to the
  numeral of its magnitude, so that the number 123456 gives the string "123456". It makes no
  difference that the controller has already applied \<open>toString\<close> to the phone.
  \<open>normalizeEmail\<close> gives absent for every input that is not a string.
\<close>

theorem normalizers_on_non_strings:
  "(normalizePhone v = None \<longleftrightarrow>
      v = JNull \<or> v = JUndefined \<or> (\<forall>c \<in> set (toString v). c \<notin> set ''0123456789''))
   \<and> (\<forall>d. normalizePhone v = Some d \<longrightarrow>
          d \<noteq> [] \<and> d = filter (\<lambda>c. c \<in> set ''0123456789'') (toString v))
   \<and> (\<forall>n. v = JInt n \<longrightarrow>
          toString v = (if intOf n < 0 then ''-'' else []) @ decimal (nat (abs (intOf n)))
          \<and> normalizePhone v = Some (decimal (nat (abs (intOf n))))
          \<and> decimalValue (decimal (nat (abs (intOf n)))) = nat (abs (intOf n))
          \<and> set (decimal (nat (abs (intOf n)))) \<subseteq> set ''0123456789''
          \<and> (decimal (nat (abs (intOf n))) = ''0''
               \<or> hd (decimal (nat (abs (intOf n)))) \<noteq> CHR ''0''))
   \<and> normalizePhone (JInt (safe 123456)) = Some ''123456''
   \<and> normalizePhone (phoneArgument v) = normalizePhone v
   \<and> ((\<forall>s. v \<noteq> JStr s) \<longrightarrow> normalizeEmail v = None)"
proof (intro conjI allI impI)
  show "normalizePhone v = None \<longleftrightarrow>
      v = JNull \<or> v = JUndefined \<or> (\<forall>c \<in> set (toString v). c \<notin> set ''0123456789'')"
    by (cases v) (auto simp: normalizePhone.simps Let_def isDigit_set filter_empty_conv)
next
  fix d assume "normalizePhone v = Some d"
  then show "d \<noteq> []" and "d = filter (\<lambda>c. c \<in> set ''0123456789'') (toString v)"
    by (cases v; simp add: normalizePhone.simps Let_def isDigit_set split: if_splits; blast)+
next
  fix n assume v: "v = JInt n"
  show "toString v = (if intOf n < 0 then ''-'' else []) @ decimal (nat (abs (intOf n)))"
    by (simp add: v abs_if)
  show "normalizePhone v = Some (decimal (nat (abs (intOf n))))"
    by (simp add: v normalizePhone_safeInteger)
  show "decimalValue (decimal (nat (abs (intOf n)))) = nat (abs (intOf n))"
    by (rule decimal_value)
  show "set (decimal (nat (abs (intOf n)))) \<subseteq> set ''0123456789''"
    by (rule decimal_digits)
  show "decimal (nat (abs (intOf n))) = ''0'' \<or> hd (decimal (nat (abs (intOf n)))) \<noteq> CHR ''0''"
    by (rule decimal_no_leading_zero)
next
  show "normalizePhone (JInt (safe 123456)) = Some ''123456''"
    by (simp add: normalizePhone_safeInteger safe_inverse decimal.simps)
next
  show "normalizePhone (phoneArgument v) = normalizePhone v"
    by (cases v) (simp_all add: phoneArgument_def normalizePhone.simps)
next
  assume "\<forall>s. v \<noteq> JStr s"
  then show "normalizeEmail v = None"
    by (cases v) (simp_all add: normalizeEmail.simps)
qed

theorem normalizers_on_non_strings_witness:
  "normalizePhone (JInt (safe (- 5550199))) = Some ''5550199''
   \<and> toString (JInt (safe (- 5550199))) = ''-5550199''
   \<and> decimalValue ''5550199'' = 5550199
   \<and> normalizePhone (phoneArgument (JInt (safe (- 5550199)))) = Some ''5550199''
   \<and> normalizeEmail (JInt (safe (- 5550199))) = None
   \<and> normalizePhone (JOther ''1e+21'') = Some (filter (\<lambda>c. c \<in> set ''0123456789'') ''1e+21'')
   \<and> normalizePhone (JOther ''NaN'') = None"
proof -
  note t = normalizers_on_non_strings [of "JInt (safe (- 5550199))"]
  have i: "intOf (safe (- 5550199)) = - 5550199"
    by (simp add: safe_inverse)
  have m: "nat (abs (intOf (safe (- 5550199)))) = 5550199"
    by (simp add: i)
  have d: "decimal 5550199 = ''5550199''"
    by (simp add: decimal.simps)
  from t have "toString (JInt (safe (- 5550199)))
                 = (if intOf (safe (- 5550199)) < 0 then ''-'' else [])
                     @ decimal (nat (abs (intOf (safe (- 5550199)))))
     \<and> normalizePhone (JInt (safe (- 5550199)))
          = Some (decimal (nat (abs (intOf (safe (- 5550199))))))
     \<and> decimalValue (decimal (nat (abs (intOf (safe (- 5550199))))))
          = nat (abs (intOf (safe (- 5550199))))"
    by blast
  then have a: "toString (JInt (safe (- 5550199))) = ''-5550199''
     \<and> normalizePhone (JInt (safe (- 5550199))) = Some ''5550199''
     \<and> decimalValue ''5550199'' = 5550199"
    unfolding m d i by (simp add: i d)
  from t have "normalizePhone (phoneArgument (JInt (safe (- 5550199))))
                 = normalizePhone (JInt (safe (- 5550199)))"
    by blast
  with a have b: "normalizePhone (phoneArgument (JInt (safe (- 5550199)))) = Some ''5550199''"
    by simp
  from t have c: "normalizeEmail (JInt (safe (- 5550199))) = None"
    by blast
  have p: "normalizePhone (JOther ''1e+21'') = Some ''121''"
    by (simp add: normalizePhone.simps isDigit_def)
  from normalizers_on_non_strings [of "JOther ''1e+21''"] p
  have e: "normalizePhone (JOther ''1e+21'')
          = Some (filter (\<lambda>c. c \<in> set ''0123456789'') ''1e+21'')"
    by simp
  from normalizers_on_non_strings [of "JOther ''NaN''"]
  have f: "normalizePhone (JOther ''NaN'') = None"
    by simp
  from a b c e f show ?thesis by simp
qed

subsection \<open>The transaction: resolving and merging\<close>

lemma set_arrayFromSet [simp]: "set (arrayFromSet xs) = set xs"
  by (simp add: arrayFromSet_def)

lemma set_findByIds: "set (findByIds ids s) = {c \<in> set (contacts s). id_c c \<in> set ids}"
  by (auto simp: findByIds_def)

lemma sorted_findByIds: "sorted (map createdAt (findByIds ids s))"
  by (simp add: findByIds_def)

lemma consolidate_SomeD:
  assumes "consolidate now ms s = Some (prim, cluster, s1)"
  shows "\<exists>others. findByIds (arrayFromSet (map candidateId ms)) s = prim # others
            \<and> s1 = mergeInto prim others now s
            \<and> cluster = findCluster (id_c prim # map id_c others) s1"
  using assms by (auto simp: consolidate_def Let_def split: list.splits)

lemma consolidate_None:
  "consolidate now ms s = None \<longleftrightarrow> findByIds (arrayFromSet (map candidateId ms)) s = []"
  by (auto simp: consolidate_def Let_def split: list.splits)

lemma findMatching_iff:
  "m \<in> set (findMatching em ph s) \<longleftrightarrow>
     m \<in> set (contacts s) \<and> deletedAt m = None \<and>
     ((truthy em \<and> email m = em) \<or> (truthy ph \<and> phoneNumber m = ph))"
  by (auto simp: findMatching_def)

lemma candidateId_cases:
  "candidateId m = id_c m \<or> (linkPrecedence m = secondary \<and> linkedId m = Some (candidateId m))"
  by (simp add: candidateId_def split: option.splits)

lemma mergeRow_link_to_root:
  assumes "linkedId m = Some pid"
  shows "linkedId (mergeRow ids pid now m) = Some pid"
  using assms by (simp add: mergeRow_def Let_def)

lemma consolidated_cluster_holds_a_match:
  assumes "consolidate now (findMatching em ph s) s = Some (prim, cluster, s1)"
  shows "\<exists>c \<in> set cluster. (truthy em \<and> email c = em) \<or> (truthy ph \<and> phoneNumber c = ph)"
proof -
  from consolidate_SomeD [OF assms] obtain others where
    fb: "findByIds (arrayFromSet (map candidateId (findMatching em ph s))) s = prim # others"
    and s1: "s1 = mergeInto prim others now s"
    and cl: "cluster = findCluster (id_c prim # map id_c others) s1"
    by blast
  have "prim \<in> set (findByIds (arrayFromSet (map candidateId (findMatching em ph s))) s)"
    by (simp add: fb)
  then have "id_c prim \<in> candidateId ` set (findMatching em ph s)"
    by (simp add: set_findByIds)
  then obtain m where m: "m \<in> set (findMatching em ph s)" and cand: "candidateId m = id_c prim"
    by auto
  from m have mc: "m \<in> set (contacts s)" and live: "deletedAt m = None"
    and hit: "(truthy em \<and> email m = em) \<or> (truthy ph \<and> phoneNumber m = ph)"
    by (simp_all add: findMatching_iff)
  define m' where "m' = mergeRow (map id_c others) (id_c prim) now m"
  have in1: "m' \<in> set (contacts s1)"
    using mc by (simp add: s1 contacts_mergeInto m'_def)
  have root: "id_c m' = id_c prim \<or> linkedId m' = Some (id_c prim)"
    using candidateId_cases [of m] cand
    by (auto simp: m'_def mergeRow_link_to_root)
  have "m' \<in> set cluster"
    using in1 root live by (auto simp: cl findCluster_def m'_def linkedIn_def)
  moreover have "(truthy em \<and> email m' = em) \<or> (truthy ph \<and> phoneNumber m' = ph)"
    using hit by (simp add: m'_def)
  ultimately show ?thesis by blast
qed

lemma create_Inl:
  "create now em ph prec lid s = Inl e \<Longrightarrow> e = PrismaError ''P2002'' \<and> em \<noteq> None \<and> ph \<noteq> None"
  by (simp add: create_def uniqueViolation_def Let_def split: if_splits)

lemma buildResponse_Inl: "buildResponse pid chain = Inl e \<Longrightarrow> e = TypeError"
  by (simp add: buildResponse_def Let_def split: option.splits)

lemma createSecondary_P2002:
  "createSecondary now em ph pid cluster s = Inl e \<Longrightarrow> errCode e = Some c \<Longrightarrow>
     em \<noteq> None \<and> ph \<noteq> None"
  by (auto simp: createSecondary_def split: sum.splits prod.splits
           dest: create_Inl buildResponse_Inl)

lemma newInformation_no_P2002:
  assumes "newInformation now em ph prim cluster s1 = Inl e"
    and "\<exists>c \<in> set cluster. (truthy em \<and> email c = em) \<or> (truthy ph \<and> phoneNumber c = ph)"
  shows "errCode e = None"
proof (rule ccontr)
  assume "errCode e \<noteq> None"
  then obtain c where c: "errCode e = Some c" by auto
  show False
  proof (cases "(truthy em \<and> \<not> truthy ph) \<or> (truthy ph \<and> \<not> truthy em)")
    case True
    with assms(1) c show False
      by (auto simp: newInformation_def dest: createSecondary_P2002)
  next
    case False
    with assms(2) have both: "truthy em" "truthy ph" by auto
    from assms(2) have has: "list_ex (\<lambda>c. email c = em) cluster \<or> list_ex (\<lambda>c. phoneNumber c = ph) cluster"
      by (auto simp: list_ex_iff)
    show False
      using assms(1) c both has
      by (auto simp: newInformation_def Let_def split: if_splits sum.splits
               dest: createSecondary_P2002 buildResponse_Inl)
  qed
qed

lemma identifyTx_P2002:
  assumes "identifyTx now em ph s = Inl e" and "errCode e = Some c"
  shows "findMatching em ph s = []"
proof (rule ccontr)
  assume ne: "findMatching em ph s \<noteq> []"
  show False
  proof (cases "consolidate now (findMatching em ph s) s")
    case None
    with assms ne show False by (simp add: identifyTx_def Let_def)
  next
    case (Some t)
    obtain prim cluster s1 where t: "t = (prim, cluster, s1)" by (cases t)
    from Some t assms(1) ne have "newInformation now em ph prim cluster s1 = Inl e"
      by (simp add: identifyTx_def Let_def)
    from newInformation_no_P2002 [OF this consolidated_cluster_holds_a_match]
    show False using Some t assms(2) by simp
  qed
qed

lemma sort_key_eq_Nil: "sort_key f xs = [] \<longleftrightarrow> xs = []"
  by (metis length_sort length_0_conv)

lemma findConflicting_None:
  "findConflicting em ph s = None \<longleftrightarrow> findMatching em ph s = []"
proof -
  have eq: "(\<lambda>c. deletedAt c = None \<and>
                  ((truthy em \<and> truthy ph \<and> email c = em \<and> phoneNumber c = ph) \<or>
                   (truthy em \<and> email c = em) \<or> (truthy ph \<and> phoneNumber c = ph)))
          = (\<lambda>c. deletedAt c = None \<and> ((truthy em \<and> email c = em) \<or> (truthy ph \<and> phoneNumber c = ph)))"
    by auto
  show ?thesis
    unfolding findConflicting_def findMatching_def eq
    by (auto split: list.splits simp: sort_key_eq_Nil)
qed

subsection \<open>The retry envelope, case by case\<close>

lemma currentAttempt_Nil [simp]: "currentAttempt [] = noFault"
  by (simp add: currentAttempt_def)

lemma currentAttempt_Cons [simp]: "currentAttempt (a # fs) = a"
  by (simp add: currentAttempt_def)

lemma runTransaction_noFault [simp]: "runTransaction noFault now em ph s = identifyTx now em ph s"
  by (simp add: runTransaction_def noFault_def)

lemma resolveConflict_noFault_None:
  "findMatching em ph s = [] \<Longrightarrow> resolveConflict noFault em ph s = Inr None"
  using findConflicting_None [of em ph s]
  by (simp add: resolveConflict_def noFault_def)

lemma processContact_input_error:
  assumes "\<not> truthy (normalizeEmail re)" "\<not> truthy (normalizePhone rp)"
  shows "processContact fs now re rp n s =
           \<lparr>outcome = Inl (Error ''email or phoneNumber required''), db = s, attempts = 0\<rparr>"
  using assms by (subst processContact.simps) simp

lemma processContact_Inr_given:
  assumes "outcome (processContact fs now re rp n s) = Inr r"
  shows "truthy (normalizeEmail re) \<or> truthy (normalizePhone rp)"
proof (rule ccontr)
  assume "\<not> (truthy (normalizeEmail re) \<or> truthy (normalizePhone rp))"
  then have "outcome (processContact fs now re rp n s) = Inl (Error ''email or phoneNumber required'')"
    by (simp add: processContact_input_error)
  with assms show False by simp
qed

lemma processContact_tx_ok:
  assumes "truthy (normalizeEmail re) \<or> truthy (normalizePhone rp)"
    and "runTransaction (currentAttempt fs) now (normalizeEmail re) (normalizePhone rp) s = Inr (r, s')"
  shows "processContact fs now re rp n s = \<lparr>outcome = Inr r, db = s', attempts = 1\<rparr>"
  using assms by (subst processContact.simps) (auto simp: Let_def)

lemma processContact_tx_error:
  assumes "truthy (normalizeEmail re) \<or> truthy (normalizePhone rp)"
    and "runTransaction (currentAttempt fs) now (normalizeEmail re) (normalizePhone rp) s = Inl e"
    and "errCode e \<noteq> Some ''P2002''"
  shows "processContact fs now re rp n s = \<lparr>outcome = Inl e, db = s, attempts = 1\<rparr>"
  using assms by (subst processContact.simps) (auto simp: Let_def)

lemma processContact_exhausted:
  assumes "truthy (normalizeEmail re) \<or> truthy (normalizePhone rp)"
    and "runTransaction (currentAttempt fs) now (normalizeEmail re) (normalizePhone rp) s = Inl e"
    and "errCode e = Some ''P2002''"
  shows "processContact fs now re rp 0 s =
           \<lparr>outcome = Inl (DatabaseError ''Failed to resolve contact conflict''), db = s, attempts = 1\<rparr>"
  using assms by (subst processContact.simps) (auto simp: Let_def)

lemma processContact_resolved:
  assumes "truthy (normalizeEmail re) \<or> truthy (normalizePhone rp)"
    and "runTransaction (currentAttempt fs) now (normalizeEmail re) (normalizePhone rp) s = Inl e"
    and "errCode e = Some ''P2002''"
    and "resolveConflict (currentAttempt fs) (normalizeEmail re) (normalizePhone rp) s = Inr (Some r)"
  shows "processContact fs now re rp (Suc n) s = \<lparr>outcome = Inr r, db = s, attempts = 1\<rparr>"
  using assms by (subst processContact.simps) (auto simp: Let_def)

lemma processContact_retry:
  assumes "truthy (normalizeEmail re) \<or> truthy (normalizePhone rp)"
    and "runTransaction (currentAttempt fs) now (normalizeEmail re) (normalizePhone rp) s = Inl e"
    and "errCode e = Some ''P2002''"
    and "\<forall>r. resolveConflict (currentAttempt fs) (normalizeEmail re) (normalizePhone rp) s \<noteq> Inr (Some r)"
  shows "processContact fs now re rp (Suc n) s =
           (processContact (tl fs) now re rp n s)
             \<lparr>attempts := Suc (attempts (processContact (tl fs) now re rp n s))\<rparr>"
  using assms
  by (subst processContact.simps) (auto simp: Let_def split: sum.splits option.splits)

text \<open>Without faults a call answers exactly when its transaction does.\<close>

lemma processContact_sequential:
  assumes "outcome (processContact [] now re rp n s) = Inr r"
  shows "identifyTx now (normalizeEmail re) (normalizePhone rp) s
           = Inr (r, db (processContact [] now re rp n s))"
  using assms
proof (induction n)
  case 0
  let ?em = "normalizeEmail re" and ?ph = "normalizePhone rp"
  from 0 have given: "truthy ?em \<or> truthy ?ph"
    by (rule processContact_Inr_given)
  show ?case
  proof (cases "identifyTx now ?em ?ph s")
    case (Inr t)
    obtain r' s' where t: "t = (r', s')" by (cases t)
    with Inr given 0 show ?thesis
      using processContact_tx_ok [of re rp "[]" now s r' s' 0] by simp
  next
    case (Inl e)
    with given 0 show ?thesis
      using processContact_tx_error [of re rp "[]" now s e 0]
        processContact_exhausted [of re rp "[]" now s e]
      by (cases "errCode e = Some ''P2002''") auto
  qed
next
  case (Suc n)
  let ?em = "normalizeEmail re" and ?ph = "normalizePhone rp"
  from Suc.prems have given: "truthy ?em \<or> truthy ?ph"
    by (rule processContact_Inr_given)
  show ?case
  proof (cases "identifyTx now ?em ?ph s")
    case (Inr t)
    obtain r' s' where t: "t = (r', s')" by (cases t)
    with Inr given Suc.prems show ?thesis
      using processContact_tx_ok [of re rp "[]" now s r' s' "Suc n"] by simp
  next
    case (Inl e)
    show ?thesis
    proof (cases "errCode e = Some ''P2002''")
      case False
      with Inl given Suc.prems show ?thesis
        using processContact_tx_error [of re rp "[]" now s e "Suc n"] by auto
    next
      case True
      with Inl have "findMatching ?em ?ph s = []" by (rule identifyTx_P2002)
      then have "resolveConflict noFault ?em ?ph s = Inr None"
        by (rule resolveConflict_noFault_None)
      with Inl True given
      have step: "processContact [] now re rp (Suc n) s =
           (processContact [] now re rp n s)
             \<lparr>attempts := Suc (attempts (processContact [] now re rp n s))\<rparr>"
        using processContact_retry [of re rp "[]" now s e n] by simp
      with Suc.prems have "outcome (processContact [] now re rp n s) = Inr r" by simp
      from Suc.IH [OF this] Inl show ?thesis by simp
    qed
  qed
qed

lemma processContact_sequential_ok:
  assumes "truthy (normalizeEmail re) \<or> truthy (normalizePhone rp)"
    and "identifyTx now (normalizeEmail re) (normalizePhone rp) s = Inr (r, s')"
  shows "processContact [] now re rp n s = \<lparr>outcome = Inr r, db = s', attempts = 1\<rparr>"
  using assms processContact_tx_ok [of re rp "[]" now s r s' n] by simp

subsection \<open>Answers and new rows\<close>

lemma buildResponse_found:
  assumes "\<exists>c \<in> set chain. id_c c = pid"
  shows "\<exists>r. buildResponse pid chain = Inr r \<and> primaryContactId r = pid
             \<and> secondaryContactIds r = map id_c (filter (\<lambda>c. id_c c \<noteq> pid) chain)"
proof -
  from assms have "find (\<lambda>c. id_c c = pid) chain \<noteq> None"
    by (auto simp: find_None_iff)
  then show ?thesis
    by (auto simp: buildResponse_def Let_def)
qed

lemma find_SomeD: "find P xs = Some x \<Longrightarrow> x \<in> set xs \<and> P x"
  by (induction xs) (auto split: if_splits)

lemma buildResponse_InrD:
  assumes "buildResponse pid chain = Inr r"
  shows "primaryContactId r = pid \<and> (\<exists>c \<in> set chain. id_c c = pid)
         \<and> secondaryContactIds r = map id_c (filter (\<lambda>c. id_c c \<noteq> pid) chain)"
  using assms
  by (auto simp: buildResponse_def Let_def split: option.splits dest: find_SomeD)

lemma consolidate_matched:
  "consolidate now ms s = Some t \<Longrightarrow> ms \<noteq> []"
  by (auto simp: consolidate_def Let_def findByIds_def arrayFromSet_def)

lemma consolidate_length:
  assumes "consolidate now ms s = Some (prim, cluster, s1)"
  shows "length (contacts s1) = length (contacts s) \<and> nextId s1 = nextId s"
  using consolidate_SomeD [OF assms] by (auto simp: contacts_mergeInto)

lemma consolidate_primary_in_cluster:
  assumes "consolidate now ms s = Some (prim, cluster, s1)" and "deletedAt prim = None"
  shows "\<exists>c \<in> set cluster. id_c c = id_c prim"
proof -
  from consolidate_SomeD [OF assms(1)] obtain others where
    fb: "findByIds (arrayFromSet (map candidateId ms)) s = prim # others"
    and s1: "s1 = mergeInto prim others now s"
    and cl: "cluster = findCluster (id_c prim # map id_c others) s1"
    by blast
  have "prim \<in> set (findByIds (arrayFromSet (map candidateId ms)) s)"
    by (simp add: fb)
  then have "prim \<in> set (contacts s)" by (simp add: set_findByIds)
  then have "mergeRow (map id_c others) (id_c prim) now prim \<in> set (contacts s1)"
    by (simp add: s1 contacts_mergeInto)
  then have "mergeRow (map id_c others) (id_c prim) now prim \<in> set cluster"
    using assms(2) by (simp add: cl findCluster_def)
  moreover have "id_c (mergeRow (map id_c others) (id_c prim) now prim) = id_c prim"
    by simp
  ultimately show ?thesis by blast
qed

text \<open>The row that \<open>create\<close> adds for a secondary of \<open>pid\<close>.\<close>

lemma createSecondary_ok:
  assumes "em = None \<or> ph = None \<or> \<not> uniqueViolation em ph s"
    and "\<exists>c \<in> set cluster. id_c c = pid"
  shows "\<exists>r. createSecondary now em ph pid cluster s =
            Inr (r, s\<lparr>contacts := contacts s @ [newSecondary now em ph pid s],
                      nextId := Suc (nextId s)\<rparr>)
           \<and> primaryContactId r = pid
           \<and> secondaryContactIds r =
               map id_c (filter (\<lambda>c. id_c c \<noteq> pid) (cluster @ [newSecondary now em ph pid s]))"
proof -
  have cr: "create now em ph secondary (Some pid) s =
      Inr (newSecondary now em ph pid s,
           s\<lparr>contacts := contacts s @ [newSecondary now em ph pid s], nextId := Suc (nextId s)\<rparr>)"
    using assms(1) by (auto simp: create_def uniqueViolation_def newSecondary_def Let_def)
  from assms(2) have "\<exists>c \<in> set (cluster @ [newSecondary now em ph pid s]). id_c c = pid"
    by auto
  from buildResponse_found [OF this] cr show ?thesis
    by (auto simp: createSecondary_def)
qed

subsection \<open>Evaluating the scenarios\<close>

lemma georgeEmail:
  "normalizeEmail (JStr ''george@hillvalley.edu'') = Some ''george@hillvalley.edu''"
  by (simp add: normalizeEmail.simps trim_def isSpace_def toLowerCase_def lowerChar_def)

lemma biffPhone: "normalizePhone (JStr ''717171'') = Some ''717171''"
  by (simp add: normalizePhone.simps isDigit_def)

lemma consolidate_george:
  "consolidate 30 (findMatching (Some ''george@hillvalley.edu'') None twoPrimaries) twoPrimaries
     = Some (rowGeorge, [rowGeorge], twoPrimaries)"
  by (simp add: consolidate_def findMatching_def twoPrimaries_def rowGeorge_def rowBiff_def
        arrayFromSet_def candidateId_def findByIds_def mergeInto_def findCluster_def linkedIn_def)

subsection \<open>The new-information decision\<close>

text \<open>
  When the true primary is not soft-deleted: a request with exactly one identifier always
  adds exactly one secondary carrying that identifier alone, linked to the true primary,
  whatever the cluster already holds; the call answers at the first attempt.
\<close>

lemma single_identifier_on_live_primary:
  assumes single: "(normalizeEmail re = None) \<noteq> (normalizePhone rp = None)"
    and matched: "consolidate now (findMatching (normalizeEmail re) (normalizePhone rp) s) s
                    = Some (prim, cluster, s1)"
    and live: "deletedAt prim = None"
  shows "\<exists>r. processContact [] now re rp n s =
            \<lparr>outcome = Inr r,
             db = s1\<lparr>contacts := contacts s1 @
                        [\<lparr>id_c = nextId s, phoneNumber = normalizePhone rp,
                          email = normalizeEmail re, linkedId = Some (id_c prim),
                          linkPrecedence = secondary, createdAt = now, updatedAt = now,
                          deletedAt = None\<rparr>],
                     nextId := Suc (nextId s)\<rparr>,
             attempts = 1\<rparr>
          \<and> primaryContactId r = id_c prim
          \<and> nextId s \<in> set (secondaryContactIds r) \<union> {id_c prim}
          \<and> length (contacts s1) = length (contacts s)"
proof -
  let ?em = "normalizeEmail re" and ?ph = "normalizePhone rp"
  from consolidate_length [OF matched]
  have len: "length (contacts s1) = length (contacts s)" and nx: "nextId s1 = nextId s"
    by simp_all
  have ne: "findMatching ?em ?ph s \<noteq> []"
    using matched by (rule consolidate_matched)
  have inc: "\<exists>c \<in> set cluster. id_c c = id_c prim"
    using matched live by (rule consolidate_primary_in_cluster)
  have one: "?em = None \<or> ?ph = None" using single by auto
  from createSecondary_ok [OF _ inc, of ?em ?ph s1 now] one
  obtain r where cs: "createSecondary now ?em ?ph (id_c prim) cluster s1 =
            Inr (r, s1\<lparr>contacts := contacts s1 @ [newSecondary now ?em ?ph (id_c prim) s1],
                      nextId := Suc (nextId s1)\<rparr>)"
    and pr: "primaryContactId r = id_c prim"
    and sec: "secondaryContactIds r =
               map id_c (filter (\<lambda>c. id_c c \<noteq> id_c prim)
                  (cluster @ [newSecondary now ?em ?ph (id_c prim) s1]))"
    by blast
  have ni: "newInformation now ?em ?ph prim cluster s1 =
              createSecondary now ?em ?ph (id_c prim) cluster s1"
    using single
    by (auto simp: newInformation_def truthy_normalizeEmail truthy_normalizePhone)
  have tx: "identifyTx now ?em ?ph s =
      Inr (r, s1\<lparr>contacts := contacts s1 @ [newSecondary now ?em ?ph (id_c prim) s1],
                      nextId := Suc (nextId s1)\<rparr>)"
    using ne matched ni cs by (simp add: identifyTx_def Let_def)
  have given: "truthy ?em \<or> truthy ?ph"
    using single by (auto simp: truthy_normalizeEmail truthy_normalizePhone)
  have "nextId s \<in> set (secondaryContactIds r) \<union> {id_c prim}"
    by (auto simp: sec newSecondary_def nx)
  with processContact_sequential_ok [OF given tx, of n] pr len
  show ?thesis
    by (auto simp: newSecondary_def nx)
qed

lemma single_identifier_on_live_primary_example:
  "(normalizeEmail (JStr ''george@hillvalley.edu'') = None) \<noteq> (normalizePhone JNull = None)
   \<and> consolidate 30
        (findMatching (normalizeEmail (JStr ''george@hillvalley.edu'')) (normalizePhone JNull)
           twoPrimaries) twoPrimaries
       = Some (rowGeorge, [rowGeorge], twoPrimaries)
   \<and> deletedAt rowGeorge = None
   \<and> list_ex (\<lambda>c. email c = Some ''george@hillvalley.edu'') [rowGeorge]
   \<and> contacts (db (processContact [] 30 (JStr ''george@hillvalley.edu'') JNull 3 twoPrimaries))
       = [rowGeorge, rowBiff,
          \<lparr>id_c = 3, phoneNumber = None, email = Some ''george@hillvalley.edu'',
           linkedId = Some 1, linkPrecedence = secondary, createdAt = 30, updatedAt = 30,
           deletedAt = None\<rparr>]"
proof -
  have h1: "(normalizeEmail (JStr ''george@hillvalley.edu'') = None) \<noteq> (normalizePhone JNull = None)"
    by (simp add: georgeEmail normalizePhone.simps)
  have h2: "consolidate 30
        (findMatching (normalizeEmail (JStr ''george@hillvalley.edu'')) (normalizePhone JNull)
           twoPrimaries) twoPrimaries
       = Some (rowGeorge, [rowGeorge], twoPrimaries)"
    unfolding georgeEmail normalizePhone.simps by (rule consolidate_george)
  have h3: "deletedAt rowGeorge = None" by (simp add: rowGeorge_def)
  have h4: "list_ex (\<lambda>c. email c = Some ''george@hillvalley.edu'') [rowGeorge]"
    by (simp add: rowGeorge_def)
  from single_identifier_on_live_primary [OF h1 h2 h3, of 3]
  have "contacts (db (processContact [] 30 (JStr ''george@hillvalley.edu'') JNull 3 twoPrimaries))
       = [rowGeorge, rowBiff,
          \<lparr>id_c = 3, phoneNumber = None, email = Some ''george@hillvalley.edu'',
           linkedId = Some 1, linkPrecedence = secondary, createdAt = 30, updatedAt = 30,
           deletedAt = None\<rparr>]"
    unfolding georgeEmail normalizePhone.simps
    by (auto simp: twoPrimaries_def rowGeorge_def)
  with h1 h2 h3 h4 show ?thesis by blast
qed

lemma createSecondary_InrD:
  assumes "createSecondary now em ph pid cluster s = Inr (r, s')"
  shows "primaryContactId r = pid
         \<and> s' = s\<lparr>contacts := contacts s @ [newSecondary now em ph pid s], nextId := Suc (nextId s)\<rparr>
         \<and> secondaryContactIds r =
             map id_c (filter (\<lambda>c. id_c c \<noteq> pid) (cluster @ [newSecondary now em ph pid s]))"
proof -
  from assms obtain sec s0 where
    cr: "create now em ph secondary (Some pid) s = Inr (sec, s0)"
    and br: "buildResponse pid (cluster @ [sec]) = Inr r" and s0: "s' = s0"
    by (auto simp: createSecondary_def split: sum.splits)
  from cr have sec: "sec = newSecondary now em ph pid s"
    and st: "s0 = s\<lparr>contacts := contacts s @ [newSecondary now em ph pid s], nextId := Suc (nextId s)\<rparr>"
    by (auto simp: create_def newSecondary_def Let_def split: if_splits)
  from buildResponse_InrD [OF br] sec st s0 show ?thesis by simp
qed

lemma newInformation_InrD:
  assumes "newInformation now em ph prim cluster s1 = Inr (r, s')"
  shows "primaryContactId r = id_c prim \<and>
         ((s' = s1 \<and> secondaryContactIds r = map id_c (filter (\<lambda>c. id_c c \<noteq> id_c prim) cluster)) \<or>
          (\<exists>e p. s' = s1\<lparr>contacts := contacts s1 @ [newSecondary now e p (id_c prim) s1],
                          nextId := Suc (nextId s1)\<rparr>
                 \<and> secondaryContactIds r =
                    map id_c (filter (\<lambda>c. id_c c \<noteq> id_c prim)
                                (cluster @ [newSecondary now e p (id_c prim) s1]))))"
proof -
  let ?hasEmail = "truthy em \<and> list_ex (\<lambda>c. email c = em) cluster"
  let ?hasPhone = "truthy ph \<and> list_ex (\<lambda>c. phoneNumber c = ph) cluster"
  consider (a) "truthy em \<and> \<not> truthy ph"
    | (b) "\<not> (truthy em \<and> \<not> truthy ph)" "truthy ph \<and> \<not> truthy em"
    | (c) "\<not> (truthy em \<and> \<not> truthy ph)" "\<not> (truthy ph \<and> \<not> truthy em)"
          "(truthy em \<and> \<not> ?hasEmail) \<or> (truthy ph \<and> \<not> ?hasPhone)"
    | (d) "\<not> (truthy em \<and> \<not> truthy ph)" "\<not> (truthy ph \<and> \<not> truthy em)"
          "\<not> ((truthy em \<and> \<not> ?hasEmail) \<or> (truthy ph \<and> \<not> ?hasPhone))"
    by blast
  then show ?thesis
  proof cases
    case a
    with assms have "createSecondary now em None (id_c prim) cluster s1 = Inr (r, s')"
      by (simp add: newInformation_def)
    from createSecondary_InrD [OF this] show ?thesis by blast
  next
    case b
    with assms have "createSecondary now None ph (id_c prim) cluster s1 = Inr (r, s')"
      by (simp add: newInformation_def)
    from createSecondary_InrD [OF this] show ?thesis by blast
  next
    case c
    with assms have "createSecondary now (if truthy em \<and> \<not> ?hasEmail then em else None)
        (if truthy ph \<and> \<not> ?hasPhone then ph else None) (id_c prim) cluster s1 = Inr (r, s')"
      by (simp add: newInformation_def Let_def)
    from createSecondary_InrD [OF this] show ?thesis by blast
  next
    case d
    with assms have "buildResponse (id_c prim) cluster = Inr r \<and> s' = s1"
      by (simp add: newInformation_def Let_def split: sum.splits)
    with buildResponse_InrD [of "id_c prim" cluster r] show ?thesis by blast
  qed
qed

lemma identifyTx_matched_InrD:
  assumes "identifyTx now em ph s = Inr (r, s')" and "findMatching em ph s \<noteq> []"
  shows "\<exists>prim cluster s1. consolidate now (findMatching em ph s) s = Some (prim, cluster, s1)
           \<and> newInformation now em ph prim cluster s1 = Inr (r, s')"
  using assms
  by (auto simp: identifyTx_def Let_def split: option.splits)

lemma sorted_head_least:
  assumes "sorted (map f (x # xs))" and "y \<in> set (x # xs)"
  shows "f x \<le> f y"
  using assms by auto

lemma stable_head:
  assumes "sort_key f xs = x # ys"
  shows "x = hd (filter (\<lambda>y. f y = f x) xs)"
proof -
  have "filter (\<lambda>y. f y = f x) (sort_key f xs) = filter (\<lambda>y. f y = f x) xs"
    by (rule sort_key_stable)
  with assms have "filter (\<lambda>y. f y = f x) xs = x # filter (\<lambda>y. f y = f x) ys"
    by simp
  then show ?thesis by simp
qed

lemma sorted_filter_head_least:
  assumes "sorted (map g xs)" and "y \<in> set (filter P xs)"
  shows "g (hd (filter P xs)) \<le> g y"
proof -
  have "sorted (map g (filter P xs))"
    using assms(1) by (rule sorted_filter)
  moreover from assms(2) obtain z zs where "filter P xs = z # zs"
    by (cases "filter P xs") auto
  ultimately show ?thesis using assms(2) by auto
qed

lemmas tx_eval =
  identifyTx_def consolidate_def newInformation_def createSecondary_def create_def
  uniqueViolation_def buildResponse_def findMatching_def findByIds_def findCluster_def
  mergeInto_def demote_def reparentChildren_def linkedIn_def candidateId_def
  arrayFromSet_def candidateRecords_def Let_def

lemmas norm_eval = trim_def isSpace_def toLowerCase_def lowerChar_def isDigit_def

lemmas scenario_rows =
  twoPrimaries_def twoMerged_def rowGeorge_def rowBiff_def rowBiffDemoted_def
  tiedStore_def rowLate_def rowEarly_def

lemma phone555: "normalizePhone (JStr ''555555'') = Some ''555555''"
  by (simp add: normalizePhone.simps isDigit_def)

lemma consolidate_george_biff:
  "consolidate 30 (findMatching (Some ''george@hillvalley.edu'') (Some ''717171'') twoPrimaries)
       twoPrimaries
     = Some (rowGeorge, [rowGeorge, rowBiffDemoted], twoMerged)"
  by (simp add: tx_eval scenario_rows)

lemma consolidate_george_555:
  "consolidate 30 (findMatching (Some ''george@hillvalley.edu'') (Some ''555555'') twoPrimaries)
       twoPrimaries
     = Some (rowGeorge, [rowGeorge], twoPrimaries)"
  by (simp add: tx_eval scenario_rows)

lemma tx_george_biff:
  "identifyTx 30 (Some ''george@hillvalley.edu'') (Some ''717171'') twoPrimaries
     = Inr (\<lparr>primaryContactId = 1,
              emails = [''george@hillvalley.edu'', ''biffsucks@hillvalley.edu''],
              phoneNumbers = [''919191'', ''717171''],
              secondaryContactIds = [2]\<rparr>, twoMerged)"
  by (simp add: tx_eval scenario_rows)

lemma tx_tied:
  "identifyTx 9 (Some ''b@test.com'') (Some ''111111'') tiedStore
     = Inr (\<lparr>primaryContactId = 2,
              emails = [''b@test.com'', ''a@test.com''],
              phoneNumbers = [''222222'', ''111111''],
              secondaryContactIds = [1]\<rparr>,
            \<lparr>contacts = [rowLate,
                 rowEarly\<lparr>linkPrecedence := secondary, linkedId := Some 2, updatedAt := 9\<rparr>],
             nextId = 3\<rparr>)"
  by (simp add: tx_eval scenario_rows)

lemma testEmailB: "normalizeEmail (JStr ''b@test.com'') = Some ''b@test.com''"
  by (simp add: normalizeEmail.simps norm_eval)

lemma testPhone1: "normalizePhone (JStr ''111111'') = Some ''111111''"
  by (simp add: normalizePhone.simps norm_eval)

text \<open>
  When the true primary is not soft-deleted: a request with both identifiers creates no
  row when the consolidated cluster holds both the email and the phone, and otherwise
  exactly one secondary of the true primary that carries only the value the cluster lacks;
  the cluster always holds one of the two, so the other field of the new row is absent.
\<close>

lemma both_identifiers_on_live_primary:
  assumes both: "normalizeEmail re \<noteq> None \<and> normalizePhone rp \<noteq> None"
    and matched: "consolidate now (findMatching (normalizeEmail re) (normalizePhone rp) s) s
                    = Some (prim, cluster, s1)"
    and live: "deletedAt prim = None"
  shows "let em = normalizeEmail re; ph = normalizePhone rp;
             hasEmail = list_ex (\<lambda>c. email c = em) cluster;
             hasPhone = list_ex (\<lambda>c. phoneNumber c = ph) cluster;
             result = processContact [] now re rp n s
         in (\<exists>r. outcome result = Inr r \<and> primaryContactId r = id_c prim)
            \<and> attempts result = 1
            \<and> length (contacts s1) = length (contacts s)
            \<and> (hasEmail \<or> hasPhone)
            \<and> contacts (db result) =
                (if hasEmail \<and> hasPhone then contacts s1
                 else contacts s1 @
                        [\<lparr>id_c = nextId s,
                          phoneNumber = (if hasPhone then None else ph),
                          email = (if hasEmail then None else em),
                          linkedId = Some (id_c prim), linkPrecedence = secondary,
                          createdAt = now, updatedAt = now, deletedAt = None\<rparr>])"
proof -
  let ?em = "normalizeEmail re" and ?ph = "normalizePhone rp"
  let ?hasEmail = "list_ex (\<lambda>c. email c = ?em) cluster"
  let ?hasPhone = "list_ex (\<lambda>c. phoneNumber c = ?ph) cluster"
  from consolidate_length [OF matched]
  have len: "length (contacts s1) = length (contacts s)" and nx: "nextId s1 = nextId s"
    by simp_all
  have te: "truthy ?em" and tp: "truthy ?ph"
    using both by (simp_all add: truthy_normalizeEmail truthy_normalizePhone)
  have ne: "findMatching ?em ?ph s \<noteq> []"
    using matched by (rule consolidate_matched)
  have inc: "\<exists>c \<in> set cluster. id_c c = id_c prim"
    using matched live by (rule consolidate_primary_in_cluster)
  have some: "?hasEmail \<or> ?hasPhone"
    using consolidated_cluster_holds_a_match [OF matched] by (auto simp: list_ex_iff)
  have tx0: "identifyTx now ?em ?ph s = newInformation now ?em ?ph prim cluster s1"
    using ne matched by (simp add: identifyTx_def Let_def)
  show ?thesis
  proof (cases "?hasEmail \<and> ?hasPhone")
    case True
    from buildResponse_found [OF inc] obtain r where
      br: "buildResponse (id_c prim) cluster = Inr r" and pr: "primaryContactId r = id_c prim"
      by blast
    have "identifyTx now ?em ?ph s = Inr (r, s1)"
      using True te tp br by (simp add: tx0 newInformation_def Let_def)
    from processContact_sequential_ok [OF _ this, of n] te
    have "processContact [] now re rp n s = \<lparr>outcome = Inr r, db = s1, attempts = 1\<rparr>"
      by simp
    with True pr len show ?thesis by (simp add: Let_def)
  next
    case False
    let ?e = "if ?hasEmail then None else ?em" and ?p = "if ?hasPhone then None else ?ph"
    have one: "?e = None \<or> ?p = None \<or> \<not> uniqueViolation ?e ?p s1"
      using some by auto
    from createSecondary_ok [OF one inc, of now]
    obtain r where cs: "createSecondary now ?e ?p (id_c prim) cluster s1 =
            Inr (r, s1\<lparr>contacts := contacts s1 @ [newSecondary now ?e ?p (id_c prim) s1],
                      nextId := Suc (nextId s1)\<rparr>)"
      and pr: "primaryContactId r = id_c prim"
      by blast
    have "newInformation now ?em ?ph prim cluster s1 = createSecondary now ?e ?p (id_c prim) cluster s1"
      using False te tp by (auto simp: newInformation_def Let_def)
    with cs have "identifyTx now ?em ?ph s =
        Inr (r, s1\<lparr>contacts := contacts s1 @ [newSecondary now ?e ?p (id_c prim) s1],
                      nextId := Suc (nextId s1)\<rparr>)"
      by (simp add: tx0)
    from processContact_sequential_ok [OF _ this, of n] te
    have "processContact [] now re rp n s =
        \<lparr>outcome = Inr r,
         db = s1\<lparr>contacts := contacts s1 @ [newSecondary now ?e ?p (id_c prim) s1],
                      nextId := Suc (nextId s1)\<rparr>, attempts = 1\<rparr>"
      by simp
    with False pr len some show ?thesis
      by (simp add: Let_def newSecondary_def nx)
  qed
qed

lemma both_identifiers_on_live_primary_example:
  "(normalizeEmail (JStr ''george@hillvalley.edu'') \<noteq> None \<and> normalizePhone (JStr ''717171'') \<noteq> None)
   \<and> consolidate 30
        (findMatching (normalizeEmail (JStr ''george@hillvalley.edu''))
           (normalizePhone (JStr ''717171'')) twoPrimaries) twoPrimaries
       = Some (rowGeorge, [rowGeorge, rowBiffDemoted], twoMerged)
   \<and> deletedAt rowGeorge = None
   \<and> contacts (db (processContact [] 30 (JStr ''george@hillvalley.edu'') (JStr ''717171'') 3
         twoPrimaries)) = [rowGeorge, rowBiffDemoted]
   \<and> normalizePhone (JStr ''555555'') \<noteq> None
   \<and> consolidate 30
        (findMatching (normalizeEmail (JStr ''george@hillvalley.edu''))
           (normalizePhone (JStr ''555555'')) twoPrimaries) twoPrimaries
       = Some (rowGeorge, [rowGeorge], twoPrimaries)
   \<and> contacts (db (processContact [] 30 (JStr ''george@hillvalley.edu'') (JStr ''555555'') 3
         twoPrimaries))
       = [rowGeorge, rowBiff,
          \<lparr>id_c = 3, phoneNumber = Some ''555555'', email = None, linkedId = Some 1,
           linkPrecedence = secondary, createdAt = 30, updatedAt = 30, deletedAt = None\<rparr>]"
proof -
  have b1: "normalizeEmail (JStr ''george@hillvalley.edu'') \<noteq> None \<and> normalizePhone (JStr ''717171'') \<noteq> None"
    unfolding georgeEmail biffPhone by simp
  have m1: "consolidate 30
        (findMatching (normalizeEmail (JStr ''george@hillvalley.edu''))
           (normalizePhone (JStr ''717171'')) twoPrimaries) twoPrimaries
       = Some (rowGeorge, [rowGeorge, rowBiffDemoted], twoMerged)"
    unfolding georgeEmail biffPhone by (rule consolidate_george_biff)
  have live: "deletedAt rowGeorge = None" by (simp add: rowGeorge_def)
  have b2: "normalizeEmail (JStr ''george@hillvalley.edu'') \<noteq> None \<and> normalizePhone (JStr ''555555'') \<noteq> None"
    unfolding georgeEmail phone555 by simp
  have m2: "consolidate 30
        (findMatching (normalizeEmail (JStr ''george@hillvalley.edu''))
           (normalizePhone (JStr ''555555'')) twoPrimaries) twoPrimaries
       = Some (rowGeorge, [rowGeorge], twoPrimaries)"
    unfolding georgeEmail phone555 by (rule consolidate_george_555)
  from both_identifiers_on_live_primary [OF b1 m1 live, of 3]
  have r1: "contacts (db (processContact [] 30 (JStr ''george@hillvalley.edu'') (JStr ''717171'') 3
         twoPrimaries)) = [rowGeorge, rowBiffDemoted]"
    unfolding georgeEmail biffPhone
    by (simp add: Let_def scenario_rows)
  from both_identifiers_on_live_primary [OF b2 m2 live, of 3]
  have r2: "contacts (db (processContact [] 30 (JStr ''george@hillvalley.edu'') (JStr ''555555'') 3
         twoPrimaries))
       = [rowGeorge, rowBiff,
          \<lparr>id_c = 3, phoneNumber = Some ''555555'', email = None, linkedId = Some 1,
           linkPrecedence = secondary, createdAt = 30, updatedAt = 30, deletedAt = None\<rparr>]"
    unfolding georgeEmail phone555
    by (simp add: Let_def scenario_rows)
  from b1 m1 live b2 m2 r1 r2 show ?thesis by blast
qed

subsection \<open>The true primary\<close>

text \<open>
  C1, as amended: on the matched path (a call without faults that answers), the true
  primary is a candidate row with the earliest \<open>createdAt\<close>; among the candidates of that
  \<open>createdAt\<close> it is the one the store returns first, which is the one of smallest id when
  the store returns its rows in ascending id order; every other candidate row is a
  secondary of the true primary afterwards.
\<close>

theorem true_primary_is_earliest_candidate:
  assumes answered: "outcome (processContact [] now re rp n s) = Inr r"
    and matched: "findMatching (normalizeEmail re) (normalizePhone rp) s \<noteq> []"
  shows "let cands = candidateRecords (normalizeEmail re) (normalizePhone rp) s;
             s' = db (processContact [] now re rp n s)
         in \<exists>prim \<in> set cands.
              primaryContactId r = id_c prim
              \<and> (\<forall>c \<in> set cands. createdAt prim \<le> createdAt c)
              \<and> prim = hd (filter (\<lambda>c. createdAt c = createdAt prim) cands)
              \<and> (sorted (map id_c (contacts s)) \<longrightarrow>
                   (\<forall>c \<in> set cands. createdAt c = createdAt prim \<longrightarrow> id_c prim \<le> id_c c))
              \<and> (\<forall>c \<in> set (contacts s').
                    id_c c \<in> id_c ` set cands \<and> id_c c \<noteq> id_c prim \<longrightarrow>
                    linkPrecedence c = secondary \<and> linkedId c = Some (id_c prim))"
proof -
  let ?em = "normalizeEmail re" and ?ph = "normalizePhone rp"
  let ?cands = "candidateRecords ?em ?ph s"
  let ?s' = "db (processContact [] now re rp n s)"
  let ?ids = "arrayFromSet (map candidateId (findMatching ?em ?ph s))"
  from processContact_sequential [OF answered]
  have tx: "identifyTx now ?em ?ph s = Inr (r, ?s')" .
  from identifyTx_matched_InrD [OF tx matched] obtain prim cluster s1 where
    co: "consolidate now (findMatching ?em ?ph s) s = Some (prim, cluster, s1)"
    and ni: "newInformation now ?em ?ph prim cluster s1 = Inr (r, ?s')"
    by blast
  from consolidate_SomeD [OF co] obtain others where
    fb: "findByIds ?ids s = prim # others"
    and s1: "s1 = mergeInto prim others now s"
    by blast
  have sk: "sort_key createdAt ?cands = prim # others"
    using fb by (simp add: findByIds_def candidateRecords_def)
  have setc: "set ?cands = set (prim # others)"
    using sk by (metis set_sort)
  have p_in: "prim \<in> set ?cands" using setc by simp
  have least: "\<forall>c \<in> set ?cands. createdAt prim \<le> createdAt c"
  proof
    fix c assume "c \<in> set ?cands"
    then have "c \<in> set (prim # others)" using setc by simp
    moreover have "sorted (map createdAt (prim # others))"
      using sorted_findByIds [of ?ids s] fb by simp
    ultimately show "createdAt prim \<le> createdAt c" by (rule sorted_head_least [rotated])
  qed
  have first: "prim = hd (filter (\<lambda>c. createdAt c = createdAt prim) ?cands)"
    using sk by (rule stable_head)
  have byid: "sorted (map id_c (contacts s)) \<longrightarrow>
                   (\<forall>c \<in> set ?cands. createdAt c = createdAt prim \<longrightarrow> id_c prim \<le> id_c c)"
  proof (intro impI ballI)
    fix c assume so: "sorted (map id_c (contacts s))" and c: "c \<in> set ?cands"
      and eq: "createdAt c = createdAt prim"
    have "sorted (map id_c ?cands)"
      unfolding candidateRecords_def using so by (rule sorted_filter)
    moreover have "c \<in> set (filter (\<lambda>c. createdAt c = createdAt prim) ?cands)"
      using c eq by simp
    ultimately have "id_c (hd (filter (\<lambda>c. createdAt c = createdAt prim) ?cands)) \<le> id_c c"
      by (rule sorted_filter_head_least)
    with first show "id_c prim \<le> id_c c" by simp
  qed
  have pr: "primaryContactId r = id_c prim"
    using newInformation_InrD [OF ni] by simp
  have dem: "\<forall>c \<in> set (contacts ?s').
                    id_c c \<in> id_c ` set ?cands \<and> id_c c \<noteq> id_c prim \<longrightarrow>
                    linkPrecedence c = secondary \<and> linkedId c = Some (id_c prim)"
  proof (intro ballI impI)
    fix c assume c: "c \<in> set (contacts ?s')"
      and idc: "id_c c \<in> id_c ` set ?cands \<and> id_c c \<noteq> id_c prim"
    from newInformation_InrD [OF ni]
    have "c \<in> set (contacts s1) \<or> (\<exists>e p. c = newSecondary now e p (id_c prim) s1)"
      using c by auto
    then show "linkPrecedence c = secondary \<and> linkedId c = Some (id_c prim)"
    proof
      assume "c \<in> set (contacts s1)"
      then obtain c0 where c0: "c0 \<in> set (contacts s)"
        and cc: "c = mergeRow (map id_c others) (id_c prim) now c0"
        by (auto simp: s1 contacts_mergeInto)
      from idc cc have "id_c c0 \<in> set ?ids"
        by (auto simp: candidateRecords_def)
      with c0 have "c0 \<in> set ?cands" by (simp add: candidateRecords_def)
      with setc idc cc have "c0 \<in> set others" by auto
      then have "id_c c0 \<in> set (map id_c others)" by simp
      from mergeRow_demoted [OF this] cc show ?thesis by simp
    next
      assume "\<exists>e p. c = newSecondary now e p (id_c prim) s1"
      then show ?thesis by (auto simp: newSecondary_def)
    qed
  qed
  from p_in pr least first byid dem show ?thesis
    unfolding Let_def by blast
qed

theorem true_primary_is_earliest_candidate_witness:
  "outcome (processContact [] 30 (JStr ''george@hillvalley.edu'') (JStr ''717171'') 3 twoPrimaries)
     = Inr \<lparr>primaryContactId = 1,
            emails = [''george@hillvalley.edu'', ''biffsucks@hillvalley.edu''],
            phoneNumbers = [''919191'', ''717171''],
            secondaryContactIds = [2]\<rparr>
   \<and> findMatching (normalizeEmail (JStr ''george@hillvalley.edu''))
        (normalizePhone (JStr ''717171'')) twoPrimaries \<noteq> []
   \<and> candidateRecords (normalizeEmail (JStr ''george@hillvalley.edu''))
        (normalizePhone (JStr ''717171'')) twoPrimaries = [rowGeorge, rowBiff]
   \<and> createdAt rowGeorge < createdAt rowBiff
   \<and> (\<exists>prim \<in> set [rowGeorge, rowBiff]. id_c prim = 1 \<and> createdAt prim \<le> createdAt rowBiff)
   \<and> db (processContact [] 30 (JStr ''george@hillvalley.edu'') (JStr ''717171'') 3 twoPrimaries)
       = twoMerged"
proof -
  have run: "processContact [] 30 (JStr ''george@hillvalley.edu'') (JStr ''717171'') 3 twoPrimaries
      = \<lparr>outcome = Inr \<lparr>primaryContactId = 1,
            emails = [''george@hillvalley.edu'', ''biffsucks@hillvalley.edu''],
            phoneNumbers = [''919191'', ''717171''],
            secondaryContactIds = [2]\<rparr>, db = twoMerged, attempts = 1\<rparr>"
    by (rule processContact_sequential_ok) (simp_all add: georgeEmail biffPhone tx_george_biff)
  have h1: "outcome (processContact [] 30 (JStr ''george@hillvalley.edu'') (JStr ''717171'') 3 twoPrimaries)
     = Inr \<lparr>primaryContactId = 1,
            emails = [''george@hillvalley.edu'', ''biffsucks@hillvalley.edu''],
            phoneNumbers = [''919191'', ''717171''],
            secondaryContactIds = [2]\<rparr>"
    by (simp add: run)
  have h2: "findMatching (normalizeEmail (JStr ''george@hillvalley.edu''))
        (normalizePhone (JStr ''717171'')) twoPrimaries \<noteq> []"
    unfolding georgeEmail biffPhone by (simp add: findMatching_def scenario_rows)
  have cands: "candidateRecords (normalizeEmail (JStr ''george@hillvalley.edu''))
        (normalizePhone (JStr ''717171'')) twoPrimaries = [rowGeorge, rowBiff]"
    unfolding georgeEmail biffPhone by (simp add: tx_eval scenario_rows)
  have lt: "createdAt rowGeorge < createdAt rowBiff" by (simp add: scenario_rows)
  from true_primary_is_earliest_candidate [OF h1 h2]
  have "\<exists>prim \<in> set [rowGeorge, rowBiff]. id_c prim = 1 \<and> createdAt prim \<le> createdAt rowBiff"
    unfolding cands Let_def by auto
  with h1 h2 cands lt run show ?thesis by simp
qed

text \<open>
  C1 as stated fails: with two candidates of equal \<open>createdAt\<close> that the store returns
  with the larger id first, the call answers with the larger id, while the candidate of
  smallest id is the other one. The query orders by \<open>createdAt\<close> alone.
\<close>

theorem tie_is_not_broken_by_id:
  "outcome (processContact [] 9 (JStr ''b@test.com'') (JStr ''111111'') 3 tiedStore)
     = Inr \<lparr>primaryContactId = 2,
            emails = [''b@test.com'', ''a@test.com''],
            phoneNumbers = [''222222'', ''111111''],
            secondaryContactIds = [1]\<rparr>
   \<and> candidateRecords (normalizeEmail (JStr ''b@test.com'')) (normalizePhone (JStr ''111111''))
        tiedStore = [rowLate, rowEarly]
   \<and> createdAt rowEarly = createdAt rowLate
   \<and> id_c rowEarly = 1 \<and> id_c rowLate = 2
   \<and> specTruePrimary [rowLate, rowEarly] = Some rowEarly"
proof -
  have "processContact [] 9 (JStr ''b@test.com'') (JStr ''111111'') 3 tiedStore
      = \<lparr>outcome = Inr \<lparr>primaryContactId = 2,
            emails = [''b@test.com'', ''a@test.com''],
            phoneNumbers = [''222222'', ''111111''],
            secondaryContactIds = [1]\<rparr>,
         db = \<lparr>contacts = [rowLate,
                 rowEarly\<lparr>linkPrecedence := secondary, linkedId := Some 2, updatedAt := 9\<rparr>],
               nextId = 3\<rparr>,
         attempts = 1\<rparr>"
    by (rule processContact_sequential_ok) (simp_all add: testEmailB testPhone1 tx_tied)
  moreover have "candidateRecords (normalizeEmail (JStr ''b@test.com''))
        (normalizePhone (JStr ''111111'')) tiedStore = [rowLate, rowEarly]"
    unfolding testEmailB testPhone1 by (simp add: tx_eval scenario_rows)
  moreover have "specTruePrimary [rowLate, rowEarly] = Some rowEarly"
    by (simp add: specTruePrimary_def senior_def scenario_rows)
  ultimately show ?thesis by (simp add: scenario_rows)
qed

subsection \<open>Conflicts and the retry budget\<close>

lemma attemptAt_0 [simp]: "attemptAt fs 0 = currentAttempt fs"
  by (simp add: attemptAt_def)

lemma attemptAt_tl [simp]: "attemptAt (tl fs) i = attemptAt fs (Suc i)"
  by (simp add: attemptAt_def drop_Suc)

lemma attemptAt_drop: "attemptAt (drop k fs) i = attemptAt fs (k + i)"
  by (simp add: attemptAt_def add.commute)

lemma conflictsD:
  assumes "conflicts a now em ph s"
  shows "\<exists>e. runTransaction a now em ph s = Inl e \<and> errCode e = Some ''P2002''"
    and "\<forall>r. resolveConflict a em ph s \<noteq> Inr (Some r)"
  using assms by (auto simp: conflicts_def split: sum.splits option.splits)

lemma processContact_conflict_step:
  assumes given: "truthy (normalizeEmail re) \<or> truthy (normalizePhone rp)"
    and "conflicts (currentAttempt fs) now (normalizeEmail re) (normalizePhone rp) s"
  shows "processContact fs now re rp (Suc n) s =
           (processContact (tl fs) now re rp n s)
             \<lparr>attempts := Suc (attempts (processContact (tl fs) now re rp n s))\<rparr>"
  using conflictsD [OF assms(2)] processContact_retry [OF given] by blast

text \<open>While the attempts conflict, the call goes on with the next one.\<close>

lemma processContact_after_conflicts:
  assumes given: "truthy (normalizeEmail re) \<or> truthy (normalizePhone rp)"
    and "\<forall>i<k. conflicts (attemptAt fs i) now (normalizeEmail re) (normalizePhone rp) s"
    and "k \<le> n"
  shows "processContact fs now re rp n s =
           (processContact (drop k fs) now re rp (n - k) s)
             \<lparr>attempts := k + attempts (processContact (drop k fs) now re rp (n - k) s)\<rparr>"
  using assms(2,3)
proof (induction k arbitrary: fs n)
  case 0
  then show ?case by simp
next
  case (Suc k)
  from Suc.prems(2) obtain m where n: "n = Suc m" and km: "k \<le> m"
    by (cases n) auto
  from Suc.prems(1) have c0: "conflicts (currentAttempt fs) now (normalizeEmail re) (normalizePhone rp) s"
    by (metis attemptAt_0 zero_less_Suc)
  from Suc.prems(1) have rest: "\<forall>i<k. conflicts (attemptAt (tl fs) i) now (normalizeEmail re) (normalizePhone rp) s"
    by simp
  from Suc.IH [OF rest km] processContact_conflict_step [OF given c0, of m]
  show ?case by (simp add: n drop_Suc)
qed

lemma attempts_bounded: "attempts (processContact fs now re rp n s) \<le> Suc n"
proof (induction n arbitrary: fs)
  case 0
  show ?case
    by (subst processContact.simps) (simp add: Let_def split: sum.splits prod.splits)
next
  case (Suc n)
  have "attempts (processContact (tl fs) now re rp n s) \<le> Suc n" by (rule Suc.IH)
  then show ?case
    by (subst processContact.simps) (simp add: Let_def split: sum.splits prod.splits option.splits)
qed

lemma persistent_conflict:
  assumes given: "truthy (normalizeEmail re) \<or> truthy (normalizePhone rp)"
    and all: "\<forall>i\<le>n. conflicts (attemptAt fs i) now (normalizeEmail re) (normalizePhone rp) s"
  shows "processContact fs now re rp n s =
           \<lparr>outcome = Inl (DatabaseError ''Failed to resolve contact conflict''),
            db = s, attempts = Suc n\<rparr>"
proof -
  from all have before: "\<forall>i<n. conflicts (attemptAt fs i) now (normalizeEmail re) (normalizePhone rp) s"
    by simp
  from all have "conflicts (attemptAt fs n) now (normalizeEmail re) (normalizePhone rp) s"
    by simp
  then have "conflicts (currentAttempt (drop n fs)) now (normalizeEmail re) (normalizePhone rp) s"
    by (simp add: attemptAt_def)
  from conflictsD(1) [OF this] obtain e where
    "runTransaction (currentAttempt (drop n fs)) now (normalizeEmail re) (normalizePhone rp) s = Inl e"
    "errCode e = Some ''P2002''" by blast
  from processContact_exhausted [OF given this]
  have "processContact (drop n fs) now re rp 0 s =
          \<lparr>outcome = Inl (DatabaseError ''Failed to resolve contact conflict''), db = s, attempts = 1\<rparr>" .
  with processContact_after_conflicts [OF given before, of n] show ?thesis by simp
qed

lemma failure_after_conflicts:
  assumes given: "truthy (normalizeEmail re) \<or> truthy (normalizePhone rp)"
    and before: "\<forall>i<k. conflicts (attemptAt fs i) now (normalizeEmail re) (normalizePhone rp) s"
    and k: "k \<le> n"
    and fails: "runTransaction (attemptAt fs k) now (normalizeEmail re) (normalizePhone rp) s = Inl e"
    and other: "errCode e \<noteq> Some ''P2002''"
  shows "processContact fs now re rp n s = \<lparr>outcome = Inl e, db = s, attempts = Suc k\<rparr>"
proof -
  from fails have "runTransaction (currentAttempt (drop k fs)) now (normalizeEmail re) (normalizePhone rp) s = Inl e"
    by (simp add: attemptAt_def)
  from processContact_tx_error [OF given this other]
  have "processContact (drop k fs) now re rp (n - k) s = \<lparr>outcome = Inl e, db = s, attempts = 1\<rparr>" .
  with processContact_after_conflicts [OF given before k] show ?thesis by simp
qed

lemmas envelope_eval =
  runTransaction_def resolveConflict_def findConflicting_def fetchContactCluster_def
  conflicts_def noFault_def lostRace_def outage_def lostRaceThenOutage_def

lemmas more_rows = retiredStore_def rowLorraineDeleted_def emptyStore_def

lemma lorraineEmail:
  "normalizeEmail (JStr ''lorraine@hillvalley.edu'') = Some ''lorraine@hillvalley.edu''"
  by (simp add: normalizeEmail.simps norm_eval)

lemma lorrainePhone: "normalizePhone (JStr ''123456'') = Some ''123456''"
  by (simp add: normalizePhone.simps norm_eval)

lemma retired_conflicts:
  "conflicts noFault 9 (Some ''lorraine@hillvalley.edu'') (Some ''123456'') retiredStore"
  by (simp add: envelope_eval tx_eval more_rows)

lemma retired_run:
  "processContact [] 9 (JStr ''lorraine@hillvalley.edu'') (JStr ''123456'') 3 retiredStore
     = \<lparr>outcome = Inl (DatabaseError ''Failed to resolve contact conflict''),
        db = retiredStore, attempts = 4\<rparr>"
proof -
  have "\<forall>i\<le>3. conflicts (attemptAt [] i) 9 (normalizeEmail (JStr ''lorraine@hillvalley.edu''))
           (normalizePhone (JStr ''123456'')) retiredStore"
    by (simp add: attemptAt_def lorraineEmail lorrainePhone retired_conflicts)
  from persistent_conflict [OF _ this] show ?thesis
    by (simp add: lorraineEmail lorrainePhone)
qed

text \<open>The no-match path when the store accepts the new row.\<close>

lemma new_primary_when_unmatched:
  assumes given: "truthy (normalizeEmail re) \<or> truthy (normalizePhone rp)"
    and unmatched: "findMatching (normalizeEmail re) (normalizePhone rp) s = []"
    and free: "\<not> uniqueViolation (normalizeEmail re) (normalizePhone rp) s"
  shows "processContact [] now re rp n s =
           \<lparr>outcome = Inr \<lparr>primaryContactId = nextId s,
                          emails = present [normalizeEmail re],
                          phoneNumbers = present [normalizePhone rp],
                          secondaryContactIds = []\<rparr>,
            db = s\<lparr>contacts := contacts s @
                      [\<lparr>id_c = nextId s, phoneNumber = normalizePhone rp,
                        email = normalizeEmail re, linkedId = None,
                        linkPrecedence = primary, createdAt = now, updatedAt = now,
                        deletedAt = None\<rparr>],
                   nextId := Suc (nextId s)\<rparr>,
            attempts = 1\<rparr>"
proof -
  have one: "arrayFromSet (present [x]) = present [x]" for x
    by (cases x) (simp_all add: arrayFromSet_def)
  have "identifyTx now (normalizeEmail re) (normalizePhone rp) s =
      Inr (\<lparr>primaryContactId = nextId s,
             emails = present [normalizeEmail re],
             phoneNumbers = present [normalizePhone rp],
             secondaryContactIds = []\<rparr>,
           s\<lparr>contacts := contacts s @
                      [\<lparr>id_c = nextId s, phoneNumber = normalizePhone rp,
                        email = normalizeEmail re, linkedId = None,
                        linkPrecedence = primary, createdAt = now, updatedAt = now,
                        deletedAt = None\<rparr>],
                   nextId := Suc (nextId s)\<rparr>)"
    using unmatched free
    by (simp add: identifyTx_def create_def buildResponse_def Let_def one)
  from processContact_sequential_ok [OF given this] show ?thesis .
qed

text \<open>
  C7, as amended: a call starts its transaction at most \<open>maxRetries + 1\<close> times, so it
  retries at most \<open>maxRetries\<close> (by default 3) times; when every attempt conflicts it
  fails with the \<open>DatabaseError\<close>, which is not the input error, and leaves the store as
  it was; an error of the transaction whose code is not \<open>P2002\<close>, at the first attempt
  or after conflicting ones, is thrown as it is and ends the call.
\<close>

theorem retry_budget_and_propagation:
  assumes given: "truthy (normalizeEmail re) \<or> truthy (normalizePhone rp)"
  shows "attempts (processContact fs now re rp n s) \<le> Suc n
     \<and> ((\<forall>i\<le>n. conflicts (attemptAt fs i) now (normalizeEmail re) (normalizePhone rp) s) \<longrightarrow>
          processContact fs now re rp n s =
            \<lparr>outcome = Inl (DatabaseError ''Failed to resolve contact conflict''),
             db = s, attempts = Suc n\<rparr>)
     \<and> (\<forall>k e. k \<le> n
            \<and> (\<forall>i<k. conflicts (attemptAt fs i) now (normalizeEmail re) (normalizePhone rp) s)
            \<and> runTransaction (attemptAt fs k) now (normalizeEmail re) (normalizePhone rp) s = Inl e
            \<and> errCode e \<noteq> Some ''P2002'' \<longrightarrow>
          processContact fs now re rp n s = \<lparr>outcome = Inl e, db = s, attempts = Suc k\<rparr>)
     \<and> DatabaseError ''Failed to resolve contact conflict'' \<noteq> Error ''email or phoneNumber required''"
  using attempts_bounded [of fs now re rp n s]
    persistent_conflict [OF given, of n fs now s]
    failure_after_conflicts [OF given, of _ fs now s n]
  by blast

theorem retry_budget_and_propagation_witness:
  "(truthy (normalizeEmail (JStr ''lorraine@hillvalley.edu'')) \<or> truthy (normalizePhone (JStr ''123456'')))
   \<and> conflicts noFault 9 (normalizeEmail (JStr ''lorraine@hillvalley.edu''))
        (normalizePhone (JStr ''123456'')) retiredStore
   \<and> processContact [] 9 (JStr ''lorraine@hillvalley.edu'') (JStr ''123456'') 3 retiredStore
       = \<lparr>outcome = Inl (DatabaseError ''Failed to resolve contact conflict''),
          db = retiredStore, attempts = 4\<rparr>
   \<and> runTransaction (attemptAt [outage] 0) 9 (normalizeEmail (JStr ''lorraine@hillvalley.edu''))
        (normalizePhone (JStr ''123456'')) emptyStore = Inl (PrismaError ''P1001'')
   \<and> processContact [outage] 9 (JStr ''lorraine@hillvalley.edu'') (JStr ''123456'') 3 emptyStore
       = \<lparr>outcome = Inl (PrismaError ''P1001''), db = emptyStore, attempts = 1\<rparr>"
proof -
  let ?re = "JStr ''lorraine@hillvalley.edu''" and ?rp = "JStr ''123456''"
  have given: "truthy (normalizeEmail ?re) \<or> truthy (normalizePhone ?rp)"
    by (simp add: lorraineEmail)
  have c: "conflicts noFault 9 (normalizeEmail ?re) (normalizePhone ?rp) retiredStore"
    by (simp add: lorraineEmail lorrainePhone retired_conflicts)
  then have all: "\<forall>i\<le>3. conflicts (attemptAt [] i) 9 (normalizeEmail ?re) (normalizePhone ?rp) retiredStore"
    by (simp add: attemptAt_def)
  have f: "runTransaction (attemptAt [outage] 0) 9 (normalizeEmail ?re) (normalizePhone ?rp) emptyStore
            = Inl (PrismaError ''P1001'')"
    by (simp add: envelope_eval)
  from retry_budget_and_propagation [OF given, of "[]" 9 3 retiredStore] all
  have r1: "processContact [] 9 ?re ?rp 3 retiredStore
       = \<lparr>outcome = Inl (DatabaseError ''Failed to resolve contact conflict''),
          db = retiredStore, attempts = 4\<rparr>"
    by simp
  from retry_budget_and_propagation [OF given, of "[outage]" 9 3 emptyStore] f
  have r2: "processContact [outage] 9 ?re ?rp 3 emptyStore
       = \<lparr>outcome = Inl (PrismaError ''P1001''), db = emptyStore, attempts = 1\<rparr>"
    by simp
  from given c r1 f r2 show ?thesis by blast
qed

text \<open>
  C7 as stated fails: an error raised by the re-query of the handler is not propagated.
  The inner \<open>catch\<close> ignores it and the call tries again; here the second attempt
  answers.
\<close>

theorem requery_failure_is_swallowed:
  "resolveConflict lostRaceThenOutage (normalizeEmail (JStr ''lorraine@hillvalley.edu''))
       (normalizePhone (JStr ''123456'')) emptyStore = Inl (PrismaError ''P1001'')
   \<and> processContact [lostRaceThenOutage] 9 (JStr ''lorraine@hillvalley.edu'') (JStr ''123456'') 3
        emptyStore
       = \<lparr>outcome = Inr \<lparr>primaryContactId = 1, emails = [''lorraine@hillvalley.edu''],
                         phoneNumbers = [''123456''], secondaryContactIds = []\<rparr>,
          db = \<lparr>contacts =
                  [\<lparr>id_c = 1, phoneNumber = Some ''123456'',
                    email = Some ''lorraine@hillvalley.edu'', linkedId = None,
                    linkPrecedence = primary, createdAt = 9, updatedAt = 9,
                    deletedAt = None\<rparr>],
                nextId = 2\<rparr>,
          attempts = 2\<rparr>"
proof -
  let ?re = "JStr ''lorraine@hillvalley.edu''" and ?rp = "JStr ''123456''"
  have given: "truthy (normalizeEmail ?re) \<or> truthy (normalizePhone ?rp)"
    by (simp add: lorraineEmail)
  have rq: "resolveConflict lostRaceThenOutage (normalizeEmail ?re) (normalizePhone ?rp) emptyStore
              = Inl (PrismaError ''P1001'')"
    by (simp add: envelope_eval)
  have "conflicts (currentAttempt [lostRaceThenOutage]) 9 (normalizeEmail ?re) (normalizePhone ?rp)
          emptyStore"
    by (simp add: envelope_eval)
  from processContact_conflict_step [OF given this, of 2]
  have step: "processContact [lostRaceThenOutage] 9 ?re ?rp 3 emptyStore =
           (processContact [] 9 ?re ?rp 2 emptyStore)
             \<lparr>attempts := Suc (attempts (processContact [] 9 ?re ?rp 2 emptyStore))\<rparr>"
    by (simp add: eval_nat_numeral)
  have "processContact [] 9 ?re ?rp 2 emptyStore =
      \<lparr>outcome = Inr \<lparr>primaryContactId = 1, emails = [''lorraine@hillvalley.edu''],
                         phoneNumbers = [''123456''], secondaryContactIds = []\<rparr>,
          db = \<lparr>contacts =
                  [\<lparr>id_c = 1, phoneNumber = Some ''123456'',
                    email = Some ''lorraine@hillvalley.edu'', linkedId = None,
                    linkPrecedence = primary, createdAt = 9, updatedAt = 9,
                    deletedAt = None\<rparr>],
                nextId = 2\<rparr>,
          attempts = 1\<rparr>"
    using new_primary_when_unmatched [OF given, of emptyStore 9 2]
    by (simp add: lorraineEmail lorrainePhone findMatching_def uniqueViolation_def emptyStore_def)
  with step rq show ?thesis by simp
qed

subsection \<open>The no-match path\<close>

text \<open>
  C9 at a failing input: the only row carrying the pair is soft-deleted, so no
  non-deleted row matches, yet the unique index still refuses the new primary; every
  attempt conflicts and the call ends with the \<open>DatabaseError\<close>, creating nothing.
\<close>

theorem soft_deleted_pair_blocks_new_primary:
  "findMatching (normalizeEmail (JStr ''lorraine@hillvalley.edu''))
       (normalizePhone (JStr ''123456'')) retiredStore = []
   \<and> processContact [] 9 (JStr ''lorraine@hillvalley.edu'') (JStr ''123456'') 3 retiredStore
       = \<lparr>outcome = Inl (DatabaseError ''Failed to resolve contact conflict''),
          db = retiredStore, attempts = 4\<rparr>"
proof -
  have "findMatching (normalizeEmail (JStr ''lorraine@hillvalley.edu''))
       (normalizePhone (JStr ''123456'')) retiredStore = []"
    by (simp add: lorraineEmail lorrainePhone findMatching_def more_rows)
  with retired_run show ?thesis by simp
qed

subsection \<open>The conflict handler\<close>

lemma findConflicting_sorted:
  "findConflicting em ph s =
     (case sort_key createdAt (findMatching em ph s) of [] \<Rightarrow> None | x # _ \<Rightarrow> Some x)"
proof -
  have eq: "(\<lambda>c. deletedAt c = None \<and>
                  ((truthy em \<and> truthy ph \<and> email c = em \<and> phoneNumber c = ph) \<or>
                   (truthy em \<and> email c = em) \<or> (truthy ph \<and> phoneNumber c = ph)))
          = (\<lambda>c. deletedAt c = None \<and> ((truthy em \<and> email c = em) \<or> (truthy ph \<and> phoneNumber c = ph)))"
    by auto
  show ?thesis
    unfolding findConflicting_def findMatching_def eq ..
qed

lemma findConflicting_SomeD:
  assumes "findConflicting em ph s = Some x"
  shows "x \<in> set (findMatching em ph s)
         \<and> (\<forall>c \<in> set (findMatching em ph s). createdAt x \<le> createdAt c)
         \<and> x = hd (filter (\<lambda>c. createdAt c = createdAt x) (findMatching em ph s))"
proof -
  from assms obtain rest where sk: "sort_key createdAt (findMatching em ph s) = x # rest"
    by (auto simp: findConflicting_sorted split: list.splits)
  have setm: "set (findMatching em ph s) = set (x # rest)"
    using sk by (metis set_sort)
  have so: "sorted (map createdAt (x # rest))"
    using sk by (metis sorted_sort_key)
  have "\<forall>c \<in> set (findMatching em ph s). createdAt x \<le> createdAt c"
  proof
    fix c assume "c \<in> set (findMatching em ph s)"
    with setm have "c \<in> set (x # rest)" by simp
    with so show "createdAt x \<le> createdAt c" by (rule sorted_head_least)
  qed
  moreover have "x = hd (filter (\<lambda>c. createdAt c = createdAt x) (findMatching em ph s))"
    using sk by (rule stable_head)
  moreover have "x \<in> set (findMatching em ph s)" using setm by simp
  ultimately show ?thesis by blast
qed

lemma fetchContactCluster_has_root:
  assumes "list_ex (\<lambda>c. id_c c = t \<and> deletedAt c = None) (contacts s)"
  shows "\<exists>c \<in> set (fetchContactCluster t s). id_c c = t"
  using assms by (auto simp: fetchContactCluster_def list_ex_iff)

text \<open>
  C6, as amended: when the transaction raises a uniqueness violation and retries remain,
  processContact re-queries (absent a failure of the re-query) for the oldest non-deleted
  row whose email or phone equals a supplied one, the first in store order among equally
  old ones; it resolves that row's true primary (itself if primary, else its
  \<open>linkedId\<close>) and, when that primary is a non-deleted row, answers with its cluster at
  once, leaving the store as it was.
\<close>

theorem conflict_resolved_by_requery:
  assumes given: "truthy (normalizeEmail re) \<or> truthy (normalizePhone rp)"
    and conflict: "runTransaction (currentAttempt fs) now (normalizeEmail re) (normalizePhone rp) s = Inl e"
    and code: "errCode e = Some ''P2002''"
    and budget: "0 < n"
    and quiet: "requeryFault (currentAttempt fs) = None"
    and found: "findConflicting (normalizeEmail re) (normalizePhone rp) s = Some x"
    and root: "(if linkPrecedence x = primary then Some (id_c x) else linkedId x) = Some t"
    and live: "list_ex (\<lambda>c. id_c c = t \<and> deletedAt c = None) (contacts s)"
  shows "\<exists>r. processContact fs now re rp n s = \<lparr>outcome = Inr r, db = s, attempts = 1\<rparr>
           \<and> buildResponse t (fetchContactCluster t s) = Inr r
           \<and> primaryContactId r = t
           \<and> x \<in> set (findMatching (normalizeEmail re) (normalizePhone rp) s)
           \<and> (\<forall>c \<in> set (findMatching (normalizeEmail re) (normalizePhone rp) s).
                 createdAt x \<le> createdAt c)
           \<and> x = hd (filter (\<lambda>c. createdAt c = createdAt x)
                       (findMatching (normalizeEmail re) (normalizePhone rp) s))"
proof -
  from buildResponse_found [OF fetchContactCluster_has_root [OF live]]
  obtain r where br: "buildResponse t (fetchContactCluster t s) = Inr r"
    and pr: "primaryContactId r = t" by blast
  have rc: "resolveConflict (currentAttempt fs) (normalizeEmail re) (normalizePhone rp) s = Inr (Some r)"
    using quiet found root br by (simp add: resolveConflict_def)
  from budget obtain m where n: "n = Suc m" by (cases n) auto
  from processContact_resolved [OF given conflict code rc, of m]
  have "processContact fs now re rp n s = \<lparr>outcome = Inr r, db = s, attempts = 1\<rparr>"
    by (simp add: n)
  with br pr findConflicting_SomeD [OF found] show ?thesis by blast
qed

lemma requery_george:
  "findConflicting (Some ''george@hillvalley.edu'') (Some ''717171'') twoPrimaries = Some rowGeorge"
  by (simp add: findConflicting_def scenario_rows)

theorem conflict_resolved_by_requery_witness:
  "(truthy (normalizeEmail (JStr ''george@hillvalley.edu'')) \<or> truthy (normalizePhone (JStr ''717171'')))
   \<and> runTransaction (currentAttempt [lostRace]) 30 (normalizeEmail (JStr ''george@hillvalley.edu''))
        (normalizePhone (JStr ''717171'')) twoPrimaries = Inl (PrismaError ''P2002'')
   \<and> errCode (PrismaError ''P2002'') = Some ''P2002''
   \<and> (0::nat) < 3
   \<and> requeryFault (currentAttempt [lostRace]) = None
   \<and> findConflicting (normalizeEmail (JStr ''george@hillvalley.edu''))
        (normalizePhone (JStr ''717171'')) twoPrimaries = Some rowGeorge
   \<and> (if linkPrecedence rowGeorge = primary then Some (id_c rowGeorge) else linkedId rowGeorge) = Some 1
   \<and> list_ex (\<lambda>c. id_c c = 1 \<and> deletedAt c = None) (contacts twoPrimaries)
   \<and> processContact [lostRace] 30 (JStr ''george@hillvalley.edu'') (JStr ''717171'') 3 twoPrimaries
       = \<lparr>outcome = Inr \<lparr>primaryContactId = 1, emails = [''george@hillvalley.edu''],
                         phoneNumbers = [''919191''], secondaryContactIds = []\<rparr>,
          db = twoPrimaries, attempts = 1\<rparr>"
proof -
  let ?re = "JStr ''george@hillvalley.edu''" and ?rp = "JStr ''717171''"
  have given: "truthy (normalizeEmail ?re) \<or> truthy (normalizePhone ?rp)"
    by (simp add: georgeEmail)
  have conflict: "runTransaction (currentAttempt [lostRace]) 30 (normalizeEmail ?re)
        (normalizePhone ?rp) twoPrimaries = Inl (PrismaError ''P2002'')"
    by (simp add: envelope_eval)
  have code: "errCode (PrismaError ''P2002'') = Some ''P2002''" by simp
  have budget: "(0::nat) < 3" by simp
  have quiet: "requeryFault (currentAttempt [lostRace]) = None" by (simp add: lostRace_def)
  have found: "findConflicting (normalizeEmail ?re) (normalizePhone ?rp) twoPrimaries = Some rowGeorge"
    by (simp add: georgeEmail biffPhone requery_george)
  have root: "(if linkPrecedence rowGeorge = primary then Some (id_c rowGeorge) else linkedId rowGeorge) = Some 1"
    by (simp add: rowGeorge_def)
  have live: "list_ex (\<lambda>c. id_c c = 1 \<and> deletedAt c = None) (contacts twoPrimaries)"
    by (simp add: scenario_rows)
  have "buildResponse 1 (fetchContactCluster 1 twoPrimaries)
          = Inr \<lparr>primaryContactId = 1, emails = [''george@hillvalley.edu''],
                         phoneNumbers = [''919191''], secondaryContactIds = []\<rparr>"
    by (simp add: buildResponse_def fetchContactCluster_def arrayFromSet_def scenario_rows)
  with conflict_resolved_by_requery [OF given conflict code budget quiet found root live]
  have "processContact [lostRace] 30 ?re ?rp 3 twoPrimaries
       = \<lparr>outcome = Inr \<lparr>primaryContactId = 1, emails = [''george@hillvalley.edu''],
                         phoneNumbers = [''919191''], secondaryContactIds = []\<rparr>,
          db = twoPrimaries, attempts = 1\<rparr>"
    by auto
  with given conflict code budget quiet found root live show ?thesis by blast
qed

text \<open>
  C6 as stated fails: the three predicates are alternatives of one \<open>OR\<close>, not a priority
  order. Here a row carries the full pair, and a priority order would take it and answer
  with primary 2; the handler takes the older row that shares only the email and answers
  with primary 1.
\<close>

theorem requery_has_no_priority_order:
  "specFindConflicting (normalizeEmail (JStr ''george@hillvalley.edu''))
       (normalizePhone (JStr ''717171'')) splitStore = Some rowPair
   \<and> linkPrecedence rowPair = primary \<and> id_c rowPair = 2
   \<and> findConflicting (normalizeEmail (JStr ''george@hillvalley.edu''))
       (normalizePhone (JStr ''717171'')) splitStore = Some rowGeorge
   \<and> processContact [lostRace] 30 (JStr ''george@hillvalley.edu'') (JStr ''717171'') 3 splitStore
       = \<lparr>outcome = Inr \<lparr>primaryContactId = 1, emails = [''george@hillvalley.edu''],
                         phoneNumbers = [''919191''], secondaryContactIds = []\<rparr>,
          db = splitStore, attempts = 1\<rparr>"
proof -
  let ?re = "JStr ''george@hillvalley.edu''" and ?rp = "JStr ''717171''"
  have given: "truthy (normalizeEmail ?re) \<or> truthy (normalizePhone ?rp)"
    by (simp add: georgeEmail)
  have spec: "specFindConflicting (normalizeEmail ?re) (normalizePhone ?rp) splitStore = Some rowPair"
    by (simp add: georgeEmail biffPhone specFindConflicting_def oldest_def splitStore_def
          rowGeorge_def rowPair_def)
  have found: "findConflicting (normalizeEmail ?re) (normalizePhone ?rp) splitStore = Some rowGeorge"
    by (simp add: georgeEmail biffPhone findConflicting_def splitStore_def rowGeorge_def rowPair_def)
  have conflict: "runTransaction (currentAttempt [lostRace]) 30 (normalizeEmail ?re)
        (normalizePhone ?rp) splitStore = Inl (PrismaError ''P2002'')"
    by (simp add: envelope_eval)
  have rc: "resolveConflict (currentAttempt [lostRace]) (normalizeEmail ?re) (normalizePhone ?rp)
        splitStore = Inr (Some \<lparr>primaryContactId = 1, emails = [''george@hillvalley.edu''],
                         phoneNumbers = [''919191''], secondaryContactIds = []\<rparr>)"
    by (simp add: resolveConflict_def found lostRace_def)
       (simp add: buildResponse_def fetchContactCluster_def arrayFromSet_def splitStore_def
          rowGeorge_def rowPair_def)
  from processContact_resolved [OF given conflict _ rc, of 2]
  have "processContact [lostRace] 30 ?re ?rp 3 splitStore
       = \<lparr>outcome = Inr \<lparr>primaryContactId = 1, emails = [''george@hillvalley.edu''],
                         phoneNumbers = [''919191''], secondaryContactIds = []\<rparr>,
          db = splitStore, attempts = 1\<rparr>"
    by (simp add: eval_nat_numeral)
  with spec found show ?thesis by (simp add: rowPair_def)
qed

subsection \<open>Soft-deleted rows\<close>

lemma newInformation_chain:
  assumes "newInformation now em ph prim cluster s1 = Inr (r, s')"
  shows "(buildResponse (id_c prim) cluster = Inr r \<and> s' = s1) \<or>
         (\<exists>e p. buildResponse (id_c prim) (cluster @ [newSecondary now e p (id_c prim) s1]) = Inr r
               \<and> s' = s1\<lparr>contacts := contacts s1 @ [newSecondary now e p (id_c prim) s1],
                          nextId := Suc (nextId s1)\<rparr>)"
proof -
  have cs: "createSecondary now e p (id_c prim) cluster s1 = Inr (r, s') \<Longrightarrow>
      buildResponse (id_c prim) (cluster @ [newSecondary now e p (id_c prim) s1]) = Inr r
               \<and> s' = s1\<lparr>contacts := contacts s1 @ [newSecondary now e p (id_c prim) s1],
                          nextId := Suc (nextId s1)\<rparr>" for e p
    by (auto simp: createSecondary_def create_def newSecondary_def Let_def
             split: sum.splits if_splits)
  from assms show ?thesis
    unfolding newInformation_def Let_def
    by (auto split: if_splits sum.splits dest!: cs)
qed

lemma findCluster_live: "c \<in> set (findCluster ids s) \<Longrightarrow> c \<in> set (contacts s) \<and> deletedAt c = None"
  by (simp add: findCluster_def)

lemma fetchContactCluster_live:
  "c \<in> set (fetchContactCluster t s) \<Longrightarrow> c \<in> set (contacts s) \<and> deletedAt c = None"
  by (simp add: fetchContactCluster_def)

text \<open>Every answer of the transaction is built from non-deleted rows of the new store.\<close>

lemma identifyTx_answer_rows:
  assumes "identifyTx now em ph s = Inr (r, s')"
  shows "\<exists>chain. buildResponse (primaryContactId r) chain = Inr r
           \<and> (\<forall>c \<in> set chain. c \<in> set (contacts s') \<and> deletedAt c = None)"
proof (cases "findMatching em ph s = []")
  case True
  with assms obtain prim where cr: "create now em ph primary None s = Inr (prim, s')"
    and br: "buildResponse (id_c prim) [prim] = Inr r"
    by (auto simp: identifyTx_def Let_def split: sum.splits)
  from cr have "prim \<in> set (contacts s') \<and> deletedAt prim = None"
    by (auto simp: create_def Let_def split: if_splits)
  moreover from buildResponse_InrD [OF br] have "primaryContactId r = id_c prim" by simp
  ultimately show ?thesis using br by (intro exI [of _ "[prim]"]) simp
next
  case False
  from identifyTx_matched_InrD [OF assms False] obtain prim cluster s1 where
    co: "consolidate now (findMatching em ph s) s = Some (prim, cluster, s1)"
    and ni: "newInformation now em ph prim cluster s1 = Inr (r, s')"
    by blast
  from consolidate_SomeD [OF co] have cl: "\<forall>c \<in> set cluster. c \<in> set (contacts s1) \<and> deletedAt c = None"
    by (auto dest: findCluster_live)
  from newInformation_chain [OF ni] show ?thesis
  proof
    assume a: "buildResponse (id_c prim) cluster = Inr r \<and> s' = s1"
    with buildResponse_InrD [of "id_c prim" cluster r] have "primaryContactId r = id_c prim"
      by simp
    with a cl show ?thesis by (intro exI [of _ cluster]) simp
  next
    assume "\<exists>e p. buildResponse (id_c prim) (cluster @ [newSecondary now e p (id_c prim) s1]) = Inr r
               \<and> s' = s1\<lparr>contacts := contacts s1 @ [newSecondary now e p (id_c prim) s1],
                          nextId := Suc (nextId s1)\<rparr>"
    then obtain e p where
      br: "buildResponse (id_c prim) (cluster @ [newSecondary now e p (id_c prim) s1]) = Inr r"
      and s': "s' = s1\<lparr>contacts := contacts s1 @ [newSecondary now e p (id_c prim) s1],
                          nextId := Suc (nextId s1)\<rparr>"
      by blast
    have "\<forall>c \<in> set (cluster @ [newSecondary now e p (id_c prim) s1]).
            c \<in> set (contacts s') \<and> deletedAt c = None"
      using cl by (auto simp: s' newSecondary_def)
    moreover from buildResponse_InrD [OF br] have "primaryContactId r = id_c prim" by simp
    ultimately show ?thesis
      using br by (intro exI [of _ "cluster @ [newSecondary now e p (id_c prim) s1]"]) simp
  qed
qed

text \<open>Where an answer comes from, whatever the faults.\<close>

lemma processContact_InrD:
  assumes "outcome (processContact fs now re rp n s) = Inr r"
  shows "identifyTx now (normalizeEmail re) (normalizePhone rp) s
             = Inr (r, db (processContact fs now re rp n s))
         \<or> (db (processContact fs now re rp n s) = s
            \<and> (\<exists>t. buildResponse t (fetchContactCluster t s) = Inr r))"
  using assms
proof (induction n arbitrary: fs)
  case 0
  then show ?case
    by (subst (asm) processContact.simps, subst processContact.simps, subst processContact.simps)
       (auto simp: Let_def runTransaction_def split: if_splits sum.splits option.splits)
next
  case (Suc n)
  let ?em = "normalizeEmail re" and ?ph = "normalizePhone rp"
  from Suc.prems have given: "truthy ?em \<or> truthy ?ph" by (rule processContact_Inr_given)
  show ?case
  proof (cases "runTransaction (currentAttempt fs) now ?em ?ph s")
    case (Inr t)
    obtain r' s' where t: "t = (r', s')" by (cases t)
    from processContact_tx_ok [OF given Inr [unfolded t], of "Suc n"] Suc.prems Inr t
    show ?thesis by (auto simp: runTransaction_def split: option.splits)
  next
    case (Inl e)
    show ?thesis
    proof (cases "errCode e = Some ''P2002''")
      case False
      from processContact_tx_error [OF given Inl False, of "Suc n"] Suc.prems
      show ?thesis by simp
    next
      case True
      show ?thesis
      proof (cases "\<exists>r'. resolveConflict (currentAttempt fs) ?em ?ph s = Inr (Some r')")
        case True
        then obtain r' where rc: "resolveConflict (currentAttempt fs) ?em ?ph s = Inr (Some r')"
          by blast
        from processContact_resolved [OF given Inl \<open>errCode e = Some ''P2002''\<close> rc, of n] Suc.prems
        have run: "processContact fs now re rp (Suc n) s = \<lparr>outcome = Inr r, db = s, attempts = 1\<rparr>"
          by simp
        from rc run processContact_resolved [OF given Inl \<open>errCode e = Some ''P2002''\<close> rc, of n]
        have rr: "resolveConflict (currentAttempt fs) ?em ?ph s = Inr (Some r)" by simp
        then have "\<exists>t. buildResponse t (fetchContactCluster t s) = Inr r"
          by (auto simp: resolveConflict_def split: option.splits sum.splits if_splits)
        with run show ?thesis by simp
      next
        case False
        then have "\<forall>r'. resolveConflict (currentAttempt fs) ?em ?ph s \<noteq> Inr (Some r')" by blast
        from processContact_retry [OF given Inl \<open>errCode e = Some ''P2002''\<close> this, of n]
        have step: "processContact fs now re rp (Suc n) s =
           (processContact (tl fs) now re rp n s)
             \<lparr>attempts := Suc (attempts (processContact (tl fs) now re rp n s))\<rparr>" .
        with Suc.prems have "outcome (processContact (tl fs) now re rp n s) = Inr r" by simp
        from Suc.IH [OF this] step show ?thesis by simp
      qed
    qed
  qed
qed

lemma answer_ids_in_chain:
  assumes "buildResponse pid chain = Inr r"
  shows "\<forall>i \<in> set (primaryContactId r # secondaryContactIds r). \<exists>c \<in> set chain. id_c c = i"
  using buildResponse_InrD [OF assms] by auto

lemma findConflicting_live:
  assumes "findConflicting em ph s = Some x"
  shows "deletedAt x = None"
  using findConflicting_SomeD [OF assms] by (simp add: findMatching_iff)

lemma answered_ids_are_live:
  assumes "outcome (processContact fs now re rp n s) = Inr r"
    and "i \<in> set (primaryContactId r # secondaryContactIds r)"
  shows "\<exists>c \<in> set (contacts (db (processContact fs now re rp n s))). id_c c = i \<and> deletedAt c = None"
proof -
  let ?s' = "db (processContact fs now re rp n s)"
  from processContact_InrD [OF assms(1)]
  have "\<exists>chain. buildResponse (primaryContactId r) chain = Inr r
           \<and> (\<forall>c \<in> set chain. c \<in> set (contacts ?s') \<and> deletedAt c = None)"
  proof
    assume "identifyTx now (normalizeEmail re) (normalizePhone rp) s = Inr (r, ?s')"
    then show ?thesis by (rule identifyTx_answer_rows)
  next
    assume b: "?s' = s \<and> (\<exists>t. buildResponse t (fetchContactCluster t s) = Inr r)"
    then obtain t where br: "buildResponse t (fetchContactCluster t s) = Inr r" by blast
    from buildResponse_InrD [OF br] have "primaryContactId r = t" by simp
    with br b show ?thesis
      by (intro exI [of _ "fetchContactCluster t s"]) (auto dest: fetchContactCluster_live)
  qed
  then obtain chain where br: "buildResponse (primaryContactId r) chain = Inr r"
    and live: "\<forall>c \<in> set chain. c \<in> set (contacts ?s') \<and> deletedAt c = None"
    by blast
  from answer_ids_in_chain [OF br] assms(2) obtain c where "c \<in> set chain" "id_c c = i"
    by blast
  with live show ?thesis by blast
qed

lemma tx_grave:
  "identifyTx 30 (Some ''george@hillvalley.edu'') (Some ''717171'') graveStore
     = Inr (\<lparr>primaryContactId = 1,
              emails = [''george@hillvalley.edu'', ''biffsucks@hillvalley.edu''],
              phoneNumbers = [''919191'', ''717171''],
              secondaryContactIds = [2]\<rparr>,
            \<lparr>contacts = [rowGeorge, rowBiffDemoted, rowGone\<lparr>linkedId := Some 1, updatedAt := 30\<rparr>],
             nextId = 4\<rparr>)"
  by (simp add: tx_eval scenario_rows graveStore_def rowGone_def)

lemma tx_orphan:
  "identifyTx 30 (Some ''george@hillvalley.edu'') (Some ''717171'') orphanStore
     = Inr (\<lparr>primaryContactId = 1,
              emails = [''george@hillvalley.edu''],
              phoneNumbers = [''919191'', ''717171''],
              secondaryContactIds = [3]\<rparr>,
            \<lparr>contacts = [rowGeorge,
                 rowBiffGone\<lparr>linkPrecedence := secondary, linkedId := Some 1, updatedAt := 30\<rparr>,
                 rowChild\<lparr>linkedId := Some 1, updatedAt := 30\<rparr>],
             nextId = 4\<rparr>)"
  by (simp add: tx_eval scenario_rows orphanStore_def rowBiffGone_def rowChild_def)

lemma run_grave:
  "processContact [] 30 (JStr ''george@hillvalley.edu'') (JStr ''717171'') 3 graveStore
     = \<lparr>outcome = Inr \<lparr>primaryContactId = 1,
              emails = [''george@hillvalley.edu'', ''biffsucks@hillvalley.edu''],
              phoneNumbers = [''919191'', ''717171''],
              secondaryContactIds = [2]\<rparr>,
        db = \<lparr>contacts = [rowGeorge, rowBiffDemoted, rowGone\<lparr>linkedId := Some 1, updatedAt := 30\<rparr>],
             nextId = 4\<rparr>,
        attempts = 1\<rparr>"
  by (rule processContact_sequential_ok) (simp_all add: georgeEmail biffPhone tx_grave)

text \<open>
  C8, as amended: soft-deleted rows are never returned by the matcher, by the cluster
  fetches or by the conflict re-query, and an answer never names one: the true primary
  and the secondaries that an answered call reports are ids of non-deleted rows of the
  store it leaves.
\<close>

theorem soft_deleted_rows_are_invisible:
  "(\<forall>c \<in> set (findMatching em ph s). deletedAt c = None)
   \<and> (\<forall>c \<in> set (findCluster ids s). deletedAt c = None)
   \<and> (\<forall>c \<in> set (fetchContactCluster t s). deletedAt c = None)
   \<and> (\<forall>x. findConflicting em ph s = Some x \<longrightarrow> deletedAt x = None)
   \<and> (\<forall>r. outcome (processContact fs now re rp n s) = Inr r \<longrightarrow>
        (\<forall>i \<in> set (primaryContactId r # secondaryContactIds r).
           \<exists>c \<in> set (contacts (db (processContact fs now re rp n s))).
             id_c c = i \<and> deletedAt c = None))"
proof (intro conjI allI impI ballI)
  fix c assume "c \<in> set (findMatching em ph s)"
  then show "deletedAt c = None" by (simp add: findMatching_iff)
next
  fix c assume "c \<in> set (findCluster ids s)"
  then show "deletedAt c = None" by (simp add: findCluster_live)
next
  fix c assume "c \<in> set (fetchContactCluster t s)"
  then show "deletedAt c = None" by (simp add: fetchContactCluster_live)
next
  fix x assume "findConflicting em ph s = Some x"
  then show "deletedAt x = None" by (rule findConflicting_live)
next
  fix r i
  assume "outcome (processContact fs now re rp n s) = Inr r"
    and "i \<in> set (primaryContactId r # secondaryContactIds r)"
  then show "\<exists>c \<in> set (contacts (db (processContact fs now re rp n s))).
             id_c c = i \<and> deletedAt c = None"
    by (rule answered_ids_are_live)
qed

theorem soft_deleted_rows_are_invisible_witness:
  "findMatching (Some ''old@hillvalley.edu'') None graveStore = []
   \<and> outcome (processContact [] 30 (JStr ''george@hillvalley.edu'') (JStr ''717171'') 3 graveStore)
       = Inr \<lparr>primaryContactId = 1,
              emails = [''george@hillvalley.edu'', ''biffsucks@hillvalley.edu''],
              phoneNumbers = [''919191'', ''717171''],
              secondaryContactIds = [2]\<rparr>
   \<and> (\<exists>c \<in> set (contacts (db (processContact [] 30 (JStr ''george@hillvalley.edu'')
                              (JStr ''717171'') 3 graveStore))).
         id_c c = 2 \<and> deletedAt c = None)"
proof -
  have a: "findMatching (Some ''old@hillvalley.edu'') None graveStore = []"
    by (simp add: findMatching_def graveStore_def rowGone_def scenario_rows)
  have b: "outcome (processContact [] 30 (JStr ''george@hillvalley.edu'') (JStr ''717171'') 3 graveStore)
       = Inr \<lparr>primaryContactId = 1,
              emails = [''george@hillvalley.edu'', ''biffsucks@hillvalley.edu''],
              phoneNumbers = [''919191'', ''717171''],
              secondaryContactIds = [2]\<rparr>"
    by (simp add: run_grave)
  from soft_deleted_rows_are_invisible
         [of "Some ''old@hillvalley.edu''" None graveStore "[]" 0 "[]" 30
             "JStr ''george@hillvalley.edu''" "JStr ''717171''" 3] b
  have "\<exists>c \<in> set (contacts (db (processContact [] 30 (JStr ''george@hillvalley.edu'')
                              (JStr ''717171'') 3 graveStore))).
         id_c c = 2 \<and> deletedAt c = None"
    by simp
  with a b show ?thesis by blast
qed

text \<open>
  C8 as stated fails: the candidate fetch and the two set-based updates select rows by id
  or by \<open>linkedId\<close> without looking at \<open>deletedAt\<close>. In the first store the soft-deleted
  child of the superseded primary is re-linked; in the second the soft-deleted primary of a
  live matched row is fetched as a candidate and demoted. Both calls answer.
\<close>

theorem soft_deleted_rows_are_relinked_and_demoted:
  "deletedAt rowGone = Some 26 \<and> linkedId rowGone = Some 2
   \<and> processContact [] 30 (JStr ''george@hillvalley.edu'') (JStr ''717171'') 3 graveStore
     = \<lparr>outcome = Inr \<lparr>primaryContactId = 1,
              emails = [''george@hillvalley.edu'', ''biffsucks@hillvalley.edu''],
              phoneNumbers = [''919191'', ''717171''],
              secondaryContactIds = [2]\<rparr>,
        db = \<lparr>contacts = [rowGeorge, rowBiffDemoted, rowGone\<lparr>linkedId := Some 1, updatedAt := 30\<rparr>],
             nextId = 4\<rparr>,
        attempts = 1\<rparr>
   \<and> deletedAt rowBiffGone = Some 26 \<and> linkPrecedence rowBiffGone = primary
   \<and> candidateRecords (normalizeEmail (JStr ''george@hillvalley.edu''))
        (normalizePhone (JStr ''717171'')) orphanStore = [rowGeorge, rowBiffGone]
   \<and> processContact [] 30 (JStr ''george@hillvalley.edu'') (JStr ''717171'') 3 orphanStore
     = \<lparr>outcome = Inr \<lparr>primaryContactId = 1,
              emails = [''george@hillvalley.edu''],
              phoneNumbers = [''919191'', ''717171''],
              secondaryContactIds = [3]\<rparr>,
        db = \<lparr>contacts = [rowGeorge,
                 rowBiffGone\<lparr>linkPrecedence := secondary, linkedId := Some 1, updatedAt := 30\<rparr>,
                 rowChild\<lparr>linkedId := Some 1, updatedAt := 30\<rparr>],
             nextId = 4\<rparr>,
        attempts = 1\<rparr>"
proof -
  have "processContact [] 30 (JStr ''george@hillvalley.edu'') (JStr ''717171'') 3 orphanStore
     = \<lparr>outcome = Inr \<lparr>primaryContactId = 1,
              emails = [''george@hillvalley.edu''],
              phoneNumbers = [''919191'', ''717171''],
              secondaryContactIds = [3]\<rparr>,
        db = \<lparr>contacts = [rowGeorge,
                 rowBiffGone\<lparr>linkPrecedence := secondary, linkedId := Some 1, updatedAt := 30\<rparr>,
                 rowChild\<lparr>linkedId := Some 1, updatedAt := 30\<rparr>],
             nextId = 4\<rparr>,
        attempts = 1\<rparr>"
    by (rule processContact_sequential_ok) (simp_all add: georgeEmail biffPhone tx_orphan)
  moreover have "candidateRecords (normalizeEmail (JStr ''george@hillvalley.edu''))
        (normalizePhone (JStr ''717171'')) orphanStore = [rowGeorge, rowBiffGone]"
    unfolding georgeEmail biffPhone
    by (simp add: tx_eval scenario_rows orphanStore_def rowBiffGone_def rowChild_def)
  moreover have "deletedAt rowGone = Some 26 \<and> linkedId rowGone = Some 2
      \<and> deletedAt rowBiffGone = Some 26 \<and> linkPrecedence rowBiffGone = primary"
    by (simp add: rowGone_def rowBiffGone_def rowBiff_def)
  ultimately show ?thesis using run_grave by simp
qed

subsection \<open>The hierarchy is preserved\<close>

lemma wellLinked_ids:
  assumes "wellLinked s" and "c \<in> set (contacts s)"
  shows "0 < id_c c \<and> id_c c < nextId s"
  using assms by (simp add: wellLinked_def)

lemma wellLinked_target:
  assumes "wellLinked s" and "c \<in> set (contacts s)" and "linkedId c = Some k"
  shows "\<exists>d \<in> set (contacts s). id_c d = k"
  using assms by (fastforce simp: wellLinked_def)

lemma wellLinked_unlinked:
  assumes "wellLinked s" and "c \<in> set (contacts s)" and "linkedId c = None"
  shows "linkPrecedence c = primary"
  using assms by (fastforce simp: wellLinked_def)

lemma wellLinked_same_id:
  assumes "wellLinked s" and "c \<in> set (contacts s)" and "d \<in> set (contacts s)"
    and "id_c c = id_c d"
  shows "c = d"
proof -
  from assms(1) have "inj_on id_c (set (contacts s))"
    by (simp add: wellLinked_def distinct_map)
  with assms(2-4) show ?thesis by (auto dest: inj_onD)
qed

lemma flatD:
  assumes "flat s" and "c \<in> set (contacts s)" and "d \<in> set (contacts s)"
    and "linkedId c = Some (id_c d)"
  shows "linkPrecedence d = primary"
  using assms by (simp add: flat_def)

lemma secondary_candidate:
  assumes "wellLinked s" and "m \<in> set (contacts s)" and "linkPrecedence m = secondary"
  shows "linkedId m = Some (candidateId m) \<and> 0 < candidateId m"
proof -
  from wellLinked_unlinked [OF assms(1,2)] assms(3) obtain k where k: "linkedId m = Some k"
    by (cases "linkedId m") auto
  from wellLinked_target [OF assms(1,2) k] obtain d where "d \<in> set (contacts s)" "id_c d = k"
    by blast
  with wellLinked_ids [OF assms(1)] have "0 < k" by blast
  with k assms(3) show ?thesis by (simp add: candidateId_def)
qed

lemma primary_candidate: "linkPrecedence m = primary \<Longrightarrow> candidateId m = id_c m"
  by (simp add: candidateId_def split: option.splits)

lemma candidate_is_primary:
  assumes wl: "wellLinked s" and fl: "flat s"
    and m: "m \<in> set (contacts s)" and d: "d \<in> set (contacts s)"
    and eq: "id_c d = candidateId m"
  shows "linkPrecedence d = primary"
proof (cases "linkPrecedence m")
  case primary
  with eq have "id_c d = id_c m" by (simp add: primary_candidate)
  with wellLinked_same_id [OF wl d m] primary show ?thesis by simp
next
  case secondary
  from secondary_candidate [OF wl m secondary] eq have "linkedId m = Some (id_c d)" by simp
  with flatD [OF fl m d] show ?thesis by simp
qed

lemma candidate_exists:
  assumes wl: "wellLinked s" and m: "m \<in> set (contacts s)"
  shows "\<exists>d \<in> set (contacts s). id_c d = candidateId m"
proof (cases "linkPrecedence m")
  case primary
  with m show ?thesis by (auto simp: primary_candidate)
next
  case secondary
  from secondary_candidate [OF wl m secondary] wellLinked_target [OF wl m] show ?thesis by blast
qed

lemma distinct_ids_findByIds:
  assumes "wellLinked s"
  shows "distinct (map id_c (findByIds ids s))"
proof -
  from assms have d: "distinct (map id_c (contacts s))" by (simp add: wellLinked_def)
  then have "distinct (map id_c (filter (\<lambda>c. id_c c \<in> set ids) (contacts s)))"
    by (rule distinct_map_filter)
  then have "distinct (filter (\<lambda>c. id_c c \<in> set ids) (contacts s))"
    and "inj_on id_c (set (filter (\<lambda>c. id_c c \<in> set ids) (contacts s)))"
    by (simp_all add: distinct_map)
  then show ?thesis
    by (simp add: findByIds_def distinct_map)
qed

text \<open>What the resolved candidates are, in a well-linked flat store.\<close>

lemma resolved_candidates:
  assumes wl: "wellLinked s" and fl: "flat s"
    and ms: "set ms \<subseteq> set (contacts s)"
    and fb: "findByIds (arrayFromSet (map candidateId ms)) s = prim # others"
  shows "prim \<in> set (contacts s)"
    and "set others \<subseteq> set (contacts s)"
    and "linkPrecedence prim = primary"
    and "id_c prim \<notin> set (map id_c others)"
    and "\<forall>m \<in> set ms. candidateId m \<in> set (map id_c (prim # others))"
proof -
  have mem: "set (prim # others) = {c \<in> set (contacts s). id_c c \<in> candidateId ` set ms}"
    using set_findByIds [of "arrayFromSet (map candidateId ms)" s] fb by simp
  from mem show p: "prim \<in> set (contacts s)" by auto
  from mem show "set others \<subseteq> set (contacts s)" by auto
  from mem obtain m where "m \<in> set ms" "id_c prim = candidateId m" by auto
  with candidate_is_primary [OF wl fl _ p] ms show "linkPrecedence prim = primary" by blast
  from distinct_ids_findByIds [OF wl, of "arrayFromSet (map candidateId ms)"] fb
  show "id_c prim \<notin> set (map id_c others)" by simp
  show "\<forall>m \<in> set ms. candidateId m \<in> set (map id_c (prim # others))"
  proof
    fix m assume m: "m \<in> set ms"
    with ms have "m \<in> set (contacts s)" by blast
    from candidate_exists [OF wl this] obtain d where
      d: "d \<in> set (contacts s)" "id_c d = candidateId m" by blast
    with m have "d \<in> {c \<in> set (contacts s). id_c c \<in> candidateId ` set ms}" by auto
    with mem have "d \<in> set (prim # others)" by simp
    with d(2) show "candidateId m \<in> set (map id_c (prim # others))" by force
  qed
qed

lemma mergeRow_link_cases:
  "linkedId (mergeRow ids pid now c) = Some pid
   \<or> (mergeRow ids pid now c = c \<and> id_c c \<notin> set ids \<and> \<not> linkedIn ids c)"
  by (simp add: mergeRow_def Let_def)


lemma ids_mergeInto [simp]:
  "map id_c (contacts (mergeInto prim others now s)) = map id_c (contacts s)"
  by (simp add: contacts_mergeInto)

lemma merge_preserves:
  assumes wl: "wellLinked s" and fl: "flat s"
    and ms: "set ms \<subseteq> set (contacts s)"
    and fb: "findByIds (arrayFromSet (map candidateId ms)) s = prim # others"
  shows "wellLinked (mergeInto prim others now s) \<and> flat (mergeInto prim others now s)"
proof
  let ?ids = "map id_c others" and ?pid = "id_c prim"
  let ?s1 = "mergeInto prim others now s"
  note rc = resolved_candidates [OF wl fl ms fb]
  have rows: "contacts ?s1 = map (mergeRow ?ids ?pid now) (contacts s)"
    by (rule contacts_mergeInto)
  have idset: "id_c ` set (contacts ?s1) = id_c ` set (contacts s)"
    by (metis ids_mergeInto set_map)
  show "wellLinked ?s1"
    unfolding wellLinked_def
  proof (intro conjI ballI)
    show "0 < nextId ?s1" using wl by (simp add: wellLinked_def)
    show "distinct (map id_c (contacts ?s1))" using wl by (simp add: wellLinked_def)
  next
    fix c' assume "c' \<in> set (contacts ?s1)"
    then obtain c where c: "c \<in> set (contacts s)" and c': "c' = mergeRow ?ids ?pid now c"
      by (auto simp: rows)
    from wellLinked_ids [OF wl c] show "0 < id_c c'" and "id_c c' < nextId ?s1"
      by (simp_all add: c')
    show "case linkedId c' of None \<Rightarrow> linkPrecedence c' = primary
          | Some k \<Rightarrow> k \<in> id_c ` set (contacts ?s1)"
      using mergeRow_link_cases [of ?ids ?pid now c]
    proof
      assume "linkedId (mergeRow ?ids ?pid now c) = Some ?pid"
      with rc(1) show ?thesis by (simp add: c' idset)
    next
      assume "mergeRow ?ids ?pid now c = c \<and> id_c c \<notin> set ?ids \<and> \<not> linkedIn ?ids c"
      with wl c show ?thesis
        by (auto simp: c' idset wellLinked_def split: option.splits)
    qed
  qed
  show "flat ?s1"
    unfolding flat_def
  proof (intro ballI impI)
    fix c' d' assume "c' \<in> set (contacts ?s1)" and "d' \<in> set (contacts ?s1)"
      and link: "linkedId c' = Some (id_c d')"
    then obtain c d where c: "c \<in> set (contacts s)" and c': "c' = mergeRow ?ids ?pid now c"
      and d: "d \<in> set (contacts s)" and d': "d' = mergeRow ?ids ?pid now d"
      by (auto simp: rows)
    from mergeRow_link_cases [of ?ids ?pid now c]
    show "linkPrecedence d' = primary"
    proof
      assume "linkedId (mergeRow ?ids ?pid now c) = Some ?pid"
      with link have "id_c d = ?pid" by (simp add: c' d')
      with wellLinked_same_id [OF wl d rc(1)] have "d = prim" by simp
      with rc(3,4) show ?thesis by (simp add: d' mergeRow_precedence)
    next
      assume same: "mergeRow ?ids ?pid now c = c \<and> id_c c \<notin> set ?ids \<and> \<not> linkedIn ?ids c"
      with link have lk: "linkedId c = Some (id_c d)" by (simp add: c' d')
      with same have "id_c d \<notin> set ?ids" by (simp add: linkedIn_def)
      then have "linkPrecedence d' = linkPrecedence d" by (simp add: d' mergeRow_precedence)
      with flatD [OF fl c d lk] show ?thesis by simp
    qed
  qed
qed

lemma append_row_preserves:
  assumes wl: "wellLinked s" and fl: "flat s"
    and fresh: "id_c c = nextId s"
    and link: "case linkedId c of
                 None \<Rightarrow> linkPrecedence c = primary
               | Some k \<Rightarrow> (\<exists>d \<in> set (contacts s). id_c d = k \<and> linkPrecedence d = primary)"
  shows "wellLinked (s\<lparr>contacts := contacts s @ [c], nextId := Suc (nextId s)\<rparr>)
         \<and> flat (s\<lparr>contacts := contacts s @ [c], nextId := Suc (nextId s)\<rparr>)"
proof
  let ?s' = "s\<lparr>contacts := contacts s @ [c], nextId := Suc (nextId s)\<rparr>"
  have below: "\<forall>x \<in> set (contacts s). id_c x < nextId s"
    using wl by (simp add: wellLinked_def)
  have nolink: "\<forall>x \<in> set (contacts s). linkedId x \<noteq> Some (nextId s)"
  proof
    fix x assume x: "x \<in> set (contacts s)"
    show "linkedId x \<noteq> Some (nextId s)"
    proof
      assume "linkedId x = Some (nextId s)"
      from wellLinked_target [OF wl x this] below show False by auto
    qed
  qed
  have cl: "linkedId c \<noteq> Some (nextId s)"
    using link below by (auto split: option.splits)
  show "wellLinked ?s'"
    unfolding wellLinked_def
  proof (intro conjI ballI)
    show "0 < nextId ?s'" by simp
    show "distinct (map id_c (contacts ?s'))"
      using wl below fresh by (auto simp: wellLinked_def)
  next
    fix x assume x: "x \<in> set (contacts ?s')"
    show "0 < id_c x" using x wl fresh by (auto simp: wellLinked_def)
    show "id_c x < nextId ?s'" using x below fresh by (auto simp: less_Suc_eq)
    show "case linkedId x of None \<Rightarrow> linkPrecedence x = primary
          | Some k \<Rightarrow> k \<in> id_c ` set (contacts ?s')"
    proof (cases "x = c")
      case True
      with link show ?thesis by (auto split: option.splits)
    next
      case False
      with x have "x \<in> set (contacts s)" by simp
      with wl show ?thesis by (auto simp: wellLinked_def split: option.splits)
    qed
  qed
  show "flat ?s'"
    unfolding flat_def
  proof (intro ballI impI)
    fix a b assume a: "a \<in> set (contacts ?s')" and b: "b \<in> set (contacts ?s')"
      and lk: "linkedId a = Some (id_c b)"
    have b_old: "b \<in> set (contacts s)"
    proof (rule ccontr)
      assume "b \<notin> set (contacts s)"
      with b have "b = c" by simp
      with lk fresh have "linkedId a = Some (nextId s)" by simp
      with a nolink cl show False by auto
    qed
    show "linkPrecedence b = primary"
    proof (cases "a \<in> set (contacts s)")
      case True
      from flatD [OF fl True b_old lk] show ?thesis .
    next
      case False
      with a have "a = c" by simp
      with lk link obtain d where d: "d \<in> set (contacts s)" "id_c d = id_c b"
        "linkPrecedence d = primary" by auto
      with wellLinked_same_id [OF wl d(1) b_old] show ?thesis by simp
    qed
  qed
qed

lemma identifyTx_preserves:
  assumes tx: "identifyTx now em ph s = Inr (r, s')"
    and wl: "wellLinked s" and fl: "flat s"
  shows "wellLinked s' \<and> flat s'"
proof (cases "findMatching em ph s = []")
  case True
  with tx obtain prim where cr: "create now em ph primary None s = Inr (prim, s')"
    by (auto simp: identifyTx_def Let_def split: sum.splits)
  then have s': "s' = s\<lparr>contacts := contacts s @ [prim], nextId := Suc (nextId s)\<rparr>"
    and "id_c prim = nextId s" and "linkedId prim = None" and "linkPrecedence prim = primary"
    by (auto simp: create_def Let_def split: if_splits)
  with append_row_preserves [OF wl fl, of prim] show ?thesis by simp
next
  case False
  from identifyTx_matched_InrD [OF tx False] obtain prim cluster s1 where
    co: "consolidate now (findMatching em ph s) s = Some (prim, cluster, s1)"
    and ni: "newInformation now em ph prim cluster s1 = Inr (r, s')"
    by blast
  from consolidate_SomeD [OF co] obtain others where
    fb: "findByIds (arrayFromSet (map candidateId (findMatching em ph s))) s = prim # others"
    and s1: "s1 = mergeInto prim others now s"
    by blast
  have ms: "set (findMatching em ph s) \<subseteq> set (contacts s)"
    by (auto simp: findMatching_iff)
  from merge_preserves [OF wl fl ms fb] have inv1: "wellLinked s1" "flat s1"
    by (simp_all add: s1)
  note rc = resolved_candidates [OF wl fl ms fb]
  from newInformation_chain [OF ni] show ?thesis
  proof
    assume "buildResponse (id_c prim) cluster = Inr r \<and> s' = s1"
    with inv1 show ?thesis by simp
  next
    assume "\<exists>e p. buildResponse (id_c prim) (cluster @ [newSecondary now e p (id_c prim) s1]) = Inr r
               \<and> s' = s1\<lparr>contacts := contacts s1 @ [newSecondary now e p (id_c prim) s1],
                          nextId := Suc (nextId s1)\<rparr>"
    then obtain e p where
      s': "s' = s1\<lparr>contacts := contacts s1 @ [newSecondary now e p (id_c prim) s1],
                          nextId := Suc (nextId s1)\<rparr>" by blast
    let ?p' = "mergeRow (map id_c others) (id_c prim) now prim"
    have "?p' \<in> set (contacts s1)" using rc(1) by (simp add: s1 contacts_mergeInto)
    moreover have "id_c ?p' = id_c prim \<and> linkPrecedence ?p' = primary"
      using rc(3,4) by (simp add: mergeRow_precedence)
    ultimately have "\<exists>d \<in> set (contacts s1). id_c d = id_c prim \<and> linkPrecedence d = primary"
      by blast
    with append_row_preserves [OF inv1, of "newSecondary now e p (id_c prim) s1"]
    show ?thesis by (simp add: s' newSecondary_def)
  qed
qed

lemma processContact_db_cases:
  "db (processContact fs now re rp n s) = s
   \<or> (\<exists>r. identifyTx now (normalizeEmail re) (normalizePhone rp) s
             = Inr (r, db (processContact fs now re rp n s)))"
proof (induction n arbitrary: fs)
  case 0
  show ?case
    unfolding processContact.simps [of fs now re rp 0 s]
    by (auto simp: Let_def runTransaction_def split: sum.splits option.splits)
next
  case (Suc n)
  from Suc [of "tl fs"] show ?case
    unfolding processContact.simps [of fs now re rp "Suc n" s]
    by (auto simp: Let_def runTransaction_def split: sum.splits option.splits)
qed

text \<open>
  C2: in a well-linked store where no link points to a secondary, every call of
  processContact, whatever it returns or throws and whatever the faults, leaves a
  well-linked store where no link points to a secondary. Step 5 re-links the rows linked
  to a superseded primary before it demotes the superseded primaries.
\<close>

theorem flattening_invariant_preserved:
  assumes "wellLinked s" and "flat s"
  shows "flat (db (processContact fs now re rp n s))
         \<and> wellLinked (db (processContact fs now re rp n s))"
  using processContact_db_cases [of fs now re rp n s] assms
  by (auto dest: identifyTx_preserves)

lemma tx_family:
  "identifyTx 30 (Some ''george@hillvalley.edu'') (Some ''717171'') familyStore
     = Inr (\<lparr>primaryContactId = 1,
              emails = [''george@hillvalley.edu'', ''biffsucks@hillvalley.edu''],
              phoneNumbers = [''919191'', ''717171''],
              secondaryContactIds = [2, 3]\<rparr>,
            \<lparr>contacts = [rowGeorge, rowBiffDemoted, rowChild\<lparr>linkedId := Some 1, updatedAt := 30\<rparr>],
             nextId = 4\<rparr>)"
  by (simp add: tx_eval scenario_rows familyStore_def rowChild_def)

theorem flattening_invariant_preserved_witness:
  "wellLinked familyStore \<and> flat familyStore
   \<and> contacts (db (processContact [] 30 (JStr ''george@hillvalley.edu'') (JStr ''717171'') 3
         familyStore))
       = [rowGeorge, rowBiffDemoted, rowChild\<lparr>linkedId := Some 1, updatedAt := 30\<rparr>]
   \<and> flat (db (processContact [] 30 (JStr ''george@hillvalley.edu'') (JStr ''717171'') 3
         familyStore))"
proof -
  have wl: "wellLinked familyStore"
    by (simp add: wellLinked_def familyStore_def rowChild_def scenario_rows)
  have fl: "flat familyStore"
    by (simp add: flat_def familyStore_def rowChild_def scenario_rows)
  have "processContact [] 30 (JStr ''george@hillvalley.edu'') (JStr ''717171'') 3 familyStore
     = \<lparr>outcome = Inr \<lparr>primaryContactId = 1,
              emails = [''george@hillvalley.edu'', ''biffsucks@hillvalley.edu''],
              phoneNumbers = [''919191'', ''717171''],
              secondaryContactIds = [2, 3]\<rparr>,
        db = \<lparr>contacts = [rowGeorge, rowBiffDemoted, rowChild\<lparr>linkedId := Some 1, updatedAt := 30\<rparr>],
             nextId = 4\<rparr>,
        attempts = 1\<rparr>"
    by (rule processContact_sequential_ok) (simp_all add: georgeEmail biffPhone tx_family)
  with flattening_invariant_preserved [OF wl fl, of "[]" 30 "JStr ''george@hillvalley.edu''"
         "JStr ''717171''" 3] wl fl
  show ?thesis by simp
qed

subsection \<open>Repeating a request\<close>













subsection \<open>Further facts: totality, a soft-deleted true primary, histories\<close>

text \<open>In a well-linked store the matched rows always resolve to a true primary.\<close>

lemma consolidate_total:
  assumes wl: "wellLinked s" and ne: "findMatching em ph s \<noteq> []"
  shows "\<exists>prim cluster s1. consolidate now (findMatching em ph s) s = Some (prim, cluster, s1)"
proof -
  from ne obtain m where m: "m \<in> set (findMatching em ph s)"
    by (cases "findMatching em ph s") auto
  then have "m \<in> set (contacts s)" by (simp add: findMatching_iff)
  from candidate_exists [OF wl this] obtain d where
    "d \<in> set (contacts s)" "id_c d = candidateId m" by blast
  with m have "d \<in> set (findByIds (arrayFromSet (map candidateId (findMatching em ph s))) s)"
    by (auto simp: set_findByIds)
  then have "findByIds (arrayFromSet (map candidateId (findMatching em ph s))) s \<noteq> []"
    by auto
  then have "consolidate now (findMatching em ph s) s \<noteq> None"
    by (simp add: consolidate_None)
  then show ?thesis by auto
qed

text \<open>
  A store with a live secondary of a soft-deleted primary is well linked and flat.
\<close>

lemma widowStore_hierarchy: "wellLinked widowStore \<and> flat widowStore"
  by (simp add: wellLinked_def flat_def widowStore_def rowBiffGone_def rowBiff_def rowChild_def)

lemma widowStore_rows:
  "findMatching None (Some ''717171'') widowStore = [rowChild]"
  "findMatching (Some ''george@hillvalley.edu'') (Some ''717171'') widowStore = [rowChild]"
  "consolidate 30 [rowChild] widowStore = Some (rowBiffGone, [rowChild], widowStore)"
  by (simp_all add: tx_eval widowStore_def rowBiffGone_def rowBiff_def rowChild_def)

text \<open>
  C5 at a failing input: the phone of a phone-only request matches a live secondary whose
  primary is soft-deleted. The candidate fetch returns that primary, the cluster fetch
  leaves it out, \<open>buildResponse\<close> finds no primary in the chain and throws: the call fails
  with a \<open>TypeError\<close> at its first attempt, and no secondary is created.
\<close>

theorem single_identifier_fails_on_deleted_primary:
  "findMatching (normalizeEmail JNull) (normalizePhone (JStr ''717171'')) widowStore = [rowChild]
   \<and> consolidate 30 [rowChild] widowStore = Some (rowBiffGone, [rowChild], widowStore)
   \<and> deletedAt rowBiffGone = Some 26
   \<and> processContact [] 30 JNull (JStr ''717171'') 3 widowStore
       = \<lparr>outcome = Inl TypeError, db = widowStore, attempts = 1\<rparr>"
proof -
  have e: "normalizeEmail JNull = None" by (simp add: normalizeEmail.simps)
  have "identifyTx 30 None (Some ''717171'') widowStore = Inl TypeError"
    by (simp add: tx_eval widowStore_def rowBiffGone_def rowBiff_def rowChild_def)
  then have "runTransaction (currentAttempt []) 30 (normalizeEmail JNull)
               (normalizePhone (JStr ''717171'')) widowStore = Inl TypeError"
    by (simp add: e biffPhone)
  from processContact_tx_error [OF _ this]
  have "processContact [] 30 JNull (JStr ''717171'') 3 widowStore
       = \<lparr>outcome = Inl TypeError, db = widowStore, attempts = 1\<rparr>"
    by (simp add: biffPhone)
  moreover have "deletedAt rowBiffGone = Some 26"
    by (simp add: rowBiffGone_def)
  ultimately show ?thesis
    by (simp add: e biffPhone widowStore_rows)
qed

text \<open>
  C4 at a failing input: a request with both identifiers whose phone matches a live
  secondary of a soft-deleted primary, and whose email the cluster lacks. The secondary
  carrying the email is inserted, \<open>buildResponse\<close> then finds no primary in the chain and
  throws, and the transaction is rolled back: the call fails with a \<open>TypeError\<close> at its
  first attempt, and the store is left without the secondary.
\<close>

theorem both_identifiers_fail_on_deleted_primary:
  "findMatching (normalizeEmail (JStr ''george@hillvalley.edu''))
       (normalizePhone (JStr ''717171'')) widowStore = [rowChild]
   \<and> consolidate 30 [rowChild] widowStore = Some (rowBiffGone, [rowChild], widowStore)
   \<and> deletedAt rowBiffGone = Some 26
   \<and> list_ex (\<lambda>c. phoneNumber c = Some ''717171'') [rowChild]
   \<and> \<not> list_ex (\<lambda>c. email c = Some ''george@hillvalley.edu'') [rowChild]
   \<and> processContact [] 30 (JStr ''george@hillvalley.edu'') (JStr ''717171'') 3 widowStore
       = \<lparr>outcome = Inl TypeError, db = widowStore, attempts = 1\<rparr>"
proof -
  have "identifyTx 30 (Some ''george@hillvalley.edu'') (Some ''717171'') widowStore
          = Inl TypeError"
    by (simp add: tx_eval widowStore_def rowBiffGone_def rowBiff_def rowChild_def)
  then have "runTransaction (currentAttempt []) 30 (normalizeEmail (JStr ''george@hillvalley.edu''))
               (normalizePhone (JStr ''717171'')) widowStore = Inl TypeError"
    by (simp add: georgeEmail biffPhone)
  from processContact_tx_error [OF _ this]
  have "processContact [] 30 (JStr ''george@hillvalley.edu'') (JStr ''717171'') 3 widowStore
       = \<lparr>outcome = Inl TypeError, db = widowStore, attempts = 1\<rparr>"
    by (simp add: georgeEmail biffPhone)
  moreover have "deletedAt rowBiffGone = Some 26"
    by (simp add: rowBiffGone_def)
  moreover have "list_ex (\<lambda>c. phoneNumber c = Some ''717171'') [rowChild]
      \<and> \<not> list_ex (\<lambda>c. email c = Some ''george@hillvalley.edu'') [rowChild]"
    by (simp add: rowChild_def)
  ultimately show ?thesis
    by (simp add: georgeEmail biffPhone widowStore_rows)
qed

text \<open>Every history of calls from the empty store keeps the hierarchy.\<close>

lemma history_preserves:
  assumes "wellLinked s" and "flat s"
  shows "wellLinked (history cs s) \<and> flat (history cs s)"
  using assms
proof (induction cs arbitrary: s)
  case Nil
  then show ?case by simp
next
  case (Cons c cs)
  let ?s' = "db (processContact (faults c) (time c) (rawEmail c) (rawPhone c) (maxRetries c) s)"
  from processContact_db_cases [of "faults c" "time c" "rawEmail c" "rawPhone c" "maxRetries c" s]
    Cons.prems
  have "wellLinked ?s' \<and> flat ?s'" by (auto dest: identifyTx_preserves)
  with Cons.IH [of ?s'] show ?case by simp
qed

lemma history_from_empty: "wellLinked (history cs emptyStore) \<and> flat (history cs emptyStore)"
  by (rule history_preserves) (simp_all add: wellLinked_def flat_def emptyStore_def)

text \<open>
  The test "merges email-only duplicates when adding a phone": two email-only requests,
  then the email with a phone; the answer lists two secondaries.
\<close>

lemma test_email_only_duplicates:
  "outcome (processContact [] 3 (JStr ''dup@test.com'') (JStr ''123456'') 3
             (history [dupCall 1, dupCall 2] emptyStore))
     = Inr \<lparr>primaryContactId = 1, emails = [''dup@test.com''], phoneNumbers = [''123456''],
            secondaryContactIds = [2, 3]\<rparr>"
proof -
  have e: "normalizeEmail (JStr ''dup@test.com'') = Some ''dup@test.com''"
    by (simp add: normalizeEmail.simps norm_eval)
  have n: "normalizePhone JNull = None" by (simp add: normalizePhone.simps)
  have s1: "processContact [] 1 (JStr ''dup@test.com'') JNull 3 emptyStore
      = \<lparr>outcome = Inr \<lparr>primaryContactId = 1, emails = [''dup@test.com''], phoneNumbers = [],
                        secondaryContactIds = []\<rparr>,
         db = \<lparr>contacts = [\<lparr>id_c = 1, phoneNumber = None, email = Some ''dup@test.com'',
                 linkedId = None, linkPrecedence = primary, createdAt = 1, updatedAt = 1,
                 deletedAt = None\<rparr>], nextId = 2\<rparr>,
         attempts = 1\<rparr>"
    by (rule processContact_sequential_ok) (simp_all add: e n tx_eval emptyStore_def)
  have s2: "processContact [] 2 (JStr ''dup@test.com'') JNull 3
        \<lparr>contacts = [\<lparr>id_c = 1, phoneNumber = None, email = Some ''dup@test.com'',
                 linkedId = None, linkPrecedence = primary, createdAt = 1, updatedAt = 1,
                 deletedAt = None\<rparr>], nextId = 2\<rparr>
      = \<lparr>outcome = Inr \<lparr>primaryContactId = 1, emails = [''dup@test.com''], phoneNumbers = [],
                        secondaryContactIds = [2]\<rparr>,
         db = \<lparr>contacts = [\<lparr>id_c = 1, phoneNumber = None, email = Some ''dup@test.com'',
                 linkedId = None, linkPrecedence = primary, createdAt = 1, updatedAt = 1,
                 deletedAt = None\<rparr>,
                \<lparr>id_c = 2, phoneNumber = None, email = Some ''dup@test.com'',
                 linkedId = Some 1, linkPrecedence = secondary, createdAt = 2, updatedAt = 2,
                 deletedAt = None\<rparr>], nextId = 3\<rparr>,
         attempts = 1\<rparr>"
    by (rule processContact_sequential_ok) (simp_all add: e n tx_eval)
  have s3: "processContact [] 3 (JStr ''dup@test.com'') (JStr ''123456'') 3
        \<lparr>contacts = [\<lparr>id_c = 1, phoneNumber = None, email = Some ''dup@test.com'',
                 linkedId = None, linkPrecedence = primary, createdAt = 1, updatedAt = 1,
                 deletedAt = None\<rparr>,
                \<lparr>id_c = 2, phoneNumber = None, email = Some ''dup@test.com'',
                 linkedId = Some 1, linkPrecedence = secondary, createdAt = 2, updatedAt = 2,
                 deletedAt = None\<rparr>], nextId = 3\<rparr>
      = \<lparr>outcome = Inr \<lparr>primaryContactId = 1, emails = [''dup@test.com''],
                        phoneNumbers = [''123456''], secondaryContactIds = [2, 3]\<rparr>,
         db = \<lparr>contacts = [\<lparr>id_c = 1, phoneNumber = None, email = Some ''dup@test.com'',
                 linkedId = None, linkPrecedence = primary, createdAt = 1, updatedAt = 1,
                 deletedAt = None\<rparr>,
                \<lparr>id_c = 2, phoneNumber = None, email = Some ''dup@test.com'',
                 linkedId = Some 1, linkPrecedence = secondary, createdAt = 2, updatedAt = 2,
                 deletedAt = None\<rparr>,
                \<lparr>id_c = 3, phoneNumber = Some ''123456'', email = None,
                 linkedId = Some 1, linkPrecedence = secondary, createdAt = 3, updatedAt = 3,
                 deletedAt = None\<rparr>], nextId = 4\<rparr>,
         attempts = 1\<rparr>"
    by (rule processContact_sequential_ok) (simp_all add: e lorrainePhone tx_eval)
  show ?thesis
    by (simp only: history.simps dupCall_def call.select_convs run.select_convs s1 s2 s3)
qed

end
